theory Spec2Isabelle
  imports Complex_Main "HOL-Library.Product_Lexorder" "HOL-Library.Multiset"
begin

section \<open>Python strings\<close>

text \<open>
  The outline extractor of \<^verbatim>\<open>process_pdfs.py\<close> works on Python \<^verbatim>\<open>str\<close> values and on
  floats. A \<^verbatim>\<open>str\<close> is modelled as a HOL \<open>string\<close> of ASCII characters, and the character
  classes below are Python's on that range (\<^verbatim>\<open>str.isspace\<close> and the regular expression
  class \<^verbatim>\<open>\s\<close> hold for the codes 9 to 13 and 28 to 32; letters and digits are the ASCII
  ones). Code points above 127 (the bullet and the copyright sign, which the source
  mentions) are outside the model. Floats are modelled as exact reals: every float
  operation of the source is a comparison, a difference, an average or a product with a
  constant, and no property below depends on rounding.
\<close>

definition isspace_c :: "char \<Rightarrow> bool" where
  "isspace_c c = (let n = (of_char c :: nat) in (9 \<le> n \<and> n \<le> 13) \<or> (28 \<le> n \<and> n \<le> 32))"

definition isdigit_c :: "char \<Rightarrow> bool" where
  "isdigit_c c = (let n = (of_char c :: nat) in 48 \<le> n \<and> n \<le> 57)"

definition isupper_c :: "char \<Rightarrow> bool" where
  "isupper_c c = (let n = (of_char c :: nat) in 65 \<le> n \<and> n \<le> 90)"

definition islower_c :: "char \<Rightarrow> bool" where
  "islower_c c = (let n = (of_char c :: nat) in 97 \<le> n \<and> n \<le> 122)"

definition isalpha_c :: "char \<Rightarrow> bool" where
  "isalpha_c c = (isupper_c c \<or> islower_c c)"

text \<open>The class \<^verbatim>\<open>\w\<close>: letters, digits and the underscore.\<close>

definition isword_c :: "char \<Rightarrow> bool" where
  "isword_c c = (isalpha_c c \<or> isdigit_c c \<or> c = CHR ''_'')"

text \<open>\<^verbatim>\<open>str.lower\<close> on one character: an ASCII capital gets bit 5 set.\<close>

definition lower_c :: "char \<Rightarrow> char" where
  "lower_c c = (if isupper_c c
     then (case c of Char b0 b1 b2 b3 b4 b5 b6 b7 \<Rightarrow> Char b0 b1 b2 b3 b4 True b6 b7)
     else c)"

definition str_lower :: "string \<Rightarrow> string" where
  "str_lower s = map lower_c s"

definition str_lstrip :: "string \<Rightarrow> string" where
  "str_lstrip s = dropWhile isspace_c s"

definition str_strip :: "string \<Rightarrow> string" where
  "str_strip s = rev (dropWhile isspace_c (rev (dropWhile isspace_c s)))"

text \<open>\<^verbatim>\<open>s.isspace()\<close>: non-empty and whitespace only.\<close>

definition str_isspace :: "string \<Rightarrow> bool" where
  "str_isspace s = (s \<noteq> [] \<and> list_all isspace_c s)"

text \<open>\<^verbatim>\<open>s.isupper()\<close>: at least one cased character, and no lower-case one.\<close>

definition str_isupper :: "string \<Rightarrow> bool" where
  "str_isupper s = (list_ex isupper_c s \<and> list_all (\<lambda>c. \<not> islower_c c) s)"

fun startswith :: "string \<Rightarrow> string \<Rightarrow> bool" where
  "startswith s [] = True"
| "startswith [] (p # ps) = False"
| "startswith (c # cs) (p # ps) = (c = p \<and> startswith cs ps)"

definition endswith :: "string \<Rightarrow> string \<Rightarrow> bool" where
  "endswith s suf = startswith (rev s) (rev suf)"

text \<open>\<^verbatim>\<open>sub in s\<close> for strings: \<open>sub\<close> occurs in \<open>s\<close> as a contiguous piece.\<close>

fun str_in :: "string \<Rightarrow> string \<Rightarrow> bool" where
  "str_in sub [] = (sub = [])"
| "str_in sub (c # cs) = (startswith (c # cs) sub \<or> str_in sub cs)"

text \<open>\<^verbatim>\<open>s.split()\<close>: the maximal pieces without whitespace; \<open>cur\<close> is the piece being read.\<close>

fun split_from :: "string \<Rightarrow> string \<Rightarrow> string list" where
  "split_from cur [] = (if cur = [] then [] else [cur])"
| "split_from cur (c # cs) =
     (if isspace_c c then (if cur = [] then split_from [] cs else cur # split_from [] cs)
      else split_from (cur @ [c]) cs)"

definition str_split :: "string \<Rightarrow> string list" where
  "str_split s = split_from [] s"

text \<open>\<^verbatim>\<open>' '.join(parts)\<close>.\<close>

fun str_join :: "string list \<Rightarrow> string" where
  "str_join [] = []"
| "str_join [p] = p"
| "str_join (p # q # ps) = p @ CHR '' '' # str_join (q # ps)"

text \<open>
  \<open>drop_prefix p s\<close> is what follows \<open>p\<close> at the start of \<open>s\<close>: the step of a regular
  expression that has matched a literal.
\<close>

fun drop_prefix :: "string \<Rightarrow> string \<Rightarrow> string option" where
  "drop_prefix [] s = Some s"
| "drop_prefix (p # ps) [] = None"
| "drop_prefix (p # ps) (c # cs) = (if p = c then drop_prefix ps cs else None)"

section \<open>The regular expressions of the classifier\<close>

text \<open>
  Each pattern of the source is a predicate of its own. The strings they are applied to
  are stripped, so \<^verbatim>\<open>$\<close> is the end of the string. The character classes that follow
  one another in a pattern are disjoint, so a greedy run never has to give characters back
  and the runs are read with \<open>takeWhile\<close> and \<open>dropWhile\<close>.
\<close>

text \<open>\<^verbatim>\<open>re.fullmatch(r'[\d.,/\-]+', t)\<close>\<close>

definition only_number_chars :: "string \<Rightarrow> bool" where
  "only_number_chars t = (t \<noteq> [] \<and> list_all (\<lambda>c. isdigit_c c \<or> c \<in> set ''.,/-'') t)"

text \<open>\<open>digits_between lo hi s\<close>: \<open>s\<close> is \<^verbatim>\<open>\d{lo,hi}\<close>.\<close>

definition digits_between :: "nat \<Rightarrow> nat \<Rightarrow> string \<Rightarrow> bool" where
  "digits_between lo hi s = (lo \<le> length s \<and> length s \<le> hi \<and> list_all isdigit_c s)"

definition is_date_sep :: "char \<Rightarrow> bool" where
  "is_date_sep c = (c = CHR ''/'' \<or> c = CHR ''-'')"

text \<open>\<^verbatim>\<open>re.fullmatch(r'\d{1,2}[/-]\d{1,2}([/-]\d{2,4})?', t)\<close>\<close>

definition numeric_date :: "string \<Rightarrow> bool" where
  "numeric_date t =
     (let d1 = takeWhile isdigit_c t; r1 = dropWhile isdigit_c t in
      digits_between 1 2 d1 \<and>
      (case r1 of [] \<Rightarrow> False
       | s1 # r2 \<Rightarrow> is_date_sep s1 \<and>
          (let d2 = takeWhile isdigit_c r2; r3 = dropWhile isdigit_c r2 in
           digits_between 1 2 d2 \<and>
           (case r3 of [] \<Rightarrow> True
            | s2 # r4 \<Rightarrow> is_date_sep s2 \<and> digits_between 2 4 r4))))"

definition month_names :: "string list" where
  "month_names = [''january'', ''february'', ''march'', ''april'', ''may'', ''june'', ''july'',
     ''august'', ''september'', ''october'', ''november'', ''december'']"

definition month_abbrs :: "string list" where
  "month_abbrs = [''jan'', ''feb'', ''mar'', ''apr'', ''may'', ''jun'', ''jul'', ''aug'', ''sep'',
     ''oct'', ''nov'', ''dec'']"

text \<open>
  \<^verbatim>\<open>MONTHS = {m.lower() for m in list(calendar.month_name) + list(calendar.month_abbr) if m}\<close>,
  in the English locale.
\<close>

definition MONTHS :: "string list" where
  "MONTHS = month_names @ month_abbrs"

text \<open>\<^verbatim>\<open>\s+\d{4}$\<close>, after the month.\<close>

definition year_tail :: "string \<Rightarrow> bool" where
  "year_tail r = (takeWhile isspace_c r \<noteq> [] \<and> digits_between 4 4 (dropWhile isspace_c r))"

text \<open>\<^verbatim>\<open>\s+\d{1,2},?\s+\d{4}$\<close>, after the month.\<close>

definition day_year_tail :: "string \<Rightarrow> bool" where
  "day_year_tail r =
     (let r1 = dropWhile isspace_c r; d = takeWhile isdigit_c r1; r2 = dropWhile isdigit_c r1;
          r3 = (case r2 of [] \<Rightarrow> [] | c # cs \<Rightarrow> if c = CHR '','' then cs else r2)
      in takeWhile isspace_c r \<noteq> [] \<and> digits_between 1 2 d \<and> year_tail r3)"

text \<open>
  \<^verbatim>\<open>re.match(r'^(m1|m2|...)<tail>$', t)\<close>: some alternative is a prefix of \<open>t\<close> and the
  tail matches what follows it (the matcher tries every alternative).
\<close>

definition month_then :: "string list \<Rightarrow> (string \<Rightarrow> bool) \<Rightarrow> string \<Rightarrow> bool" where
  "month_then months tail t =
     list_ex (\<lambda>m. case drop_prefix m t of None \<Rightarrow> False | Some r \<Rightarrow> tail r) months"

definition is_date_or_month_or_number :: "string \<Rightarrow> bool" where
  "is_date_or_month_or_number text =
     (let t = str_lower (str_strip text) in
      if only_number_chars t then True
      else if t \<in> set MONTHS then True
      else if numeric_date t then True
      else if digits_between 4 4 t then True
      else if month_then month_names day_year_tail t then True
      else if month_then month_names year_tail t then True
      else if month_then month_abbrs day_year_tail t then True
      else if month_then month_abbrs year_tail t then True
      else False)"

text \<open>\<^verbatim>\<open>re.match(r'^\d+\.$', t)\<close>\<close>

definition number_with_period :: "string \<Rightarrow> bool" where
  "number_with_period t = (takeWhile isdigit_c t \<noteq> [] \<and> dropWhile isdigit_c t = ''.'')"

text \<open>\<^verbatim>\<open>re.fullmatch(r'[^\w\s]+', t)\<close>\<close>

definition only_symbols :: "string \<Rightarrow> bool" where
  "only_symbols t = (t \<noteq> [] \<and> list_all (\<lambda>c. \<not> isword_c c \<and> \<not> isspace_c c) t)"

text \<open>\<^verbatim>\<open>re.match(r'^page\s+\d+$', t.lower())\<close>\<close>

definition page_number_text :: "string \<Rightarrow> bool" where
  "page_number_text t =
     (case drop_prefix ''page'' (str_lower t) of None \<Rightarrow> False
      | Some r \<Rightarrow> takeWhile isspace_c r \<noteq> [] \<and>
          (let d = dropWhile isspace_c r in d \<noteq> [] \<and> list_all isdigit_c d))"

text \<open>\<^verbatim>\<open>re.search(r'http[s]?://|www\.|@', t)\<close>\<close>

definition url_or_email :: "string \<Rightarrow> bool" where
  "url_or_email t =
     (str_in ''http://'' t \<or> str_in ''https://'' t \<or> str_in ''www.'' t \<or> str_in ''@'' t)"

section \<open>The data model\<close>

text \<open>
  A level is one of the strings \<^verbatim>\<open>"H1"\<close>, \<^verbatim>\<open>"H2"\<close>, ... that the tagger builds with
  \<^verbatim>\<open>f"H{i+1}"\<close>, or the sentinel \<^verbatim>\<open>"H_body"\<close>. \<open>H k\<close> is the string \<^verbatim>\<open>"H"\<close> followed by
  the decimal digits of \<open>k\<close>.
\<close>

datatype level = H nat | H_body

datatype error = PDFSyntaxError | ValueError | KeyError

text \<open>
  \<^verbatim>\<open>int(level[1:])\<close>: the index of a level. On \<^verbatim>\<open>"H_body"\<close> Python's \<^verbatim>\<open>int("_body")\<close>
  raises \<^verbatim>\<open>ValueError\<close>.
\<close>

fun level_index :: "level \<Rightarrow> error + nat" where
  "level_index (H k) = Inr k"
| "level_index H_body = Inl ValueError"

section \<open>The heading classifier\<close>

definition bracket_enclosed :: "string \<Rightarrow> bool" where
  "bracket_enclosed t =
     ((startswith t ''('' \<and> endswith t '')'') \<or>
      (startswith t ''['' \<and> endswith t '']'') \<or>
      (startswith t ''{'' \<and> endswith t ''}''))"

text \<open>\<^verbatim>\<open>t_no_space and t_no_space[0].islower()\<close>\<close>

definition starts_lowercase :: "string \<Rightarrow> bool" where
  "starts_lowercase t = (case str_lstrip t of [] \<Rightarrow> False | c # cs \<Rightarrow> islower_c c)"

text \<open>
  \<^verbatim>\<open>font_name and any(b in font_name.lower() for b in ['bold', 'b', 'heavy', 'black'])\<close>
\<close>

definition bold_font :: "string option \<Rightarrow> bool" where
  "bold_font font_name =
     (case font_name of None \<Rightarrow> False
      | Some f \<Rightarrow> f \<noteq> [] \<and> list_ex (\<lambda>b. str_in b (str_lower f)) [''bold'', ''b'', ''heavy'', ''black''])"

text \<open>Rule 10: \<^verbatim>\<open>abs(x0 - page_width / 2) < page_width * 0.3\<close>, when both are given.\<close>

definition near_centre :: "real option \<Rightarrow> real option \<Rightarrow> bool" where
  "near_centre x0 page_width =
     (case (x0, page_width) of
        (Some x, Some w) \<Rightarrow> \<bar>x - w / 2\<bar> < w * 0.3
      | _ \<Rightarrow> False)"

text \<open>Rule 11: \<^verbatim>\<open>y0 > page_height * 0.7\<close>, when both are given.\<close>

definition near_top :: "real option \<Rightarrow> real option \<Rightarrow> bool" where
  "near_top y0 page_height =
     (case (y0, page_height) of
        (Some y, Some h) \<Rightarrow> y > h * 0.7
      | _ \<Rightarrow> False)"

definition non_heading_words :: "string list" where
  "non_heading_words =
     [''page'', ''continued'', ''footnote'', ''reference'', ''appendix'', ''index'', ''glossary'']"

text \<open>
  \<^verbatim>\<open>is_actual_heading\<close>: an ordered list of rules, the first that applies decides. The
  test \<^verbatim>\<open>'\<copyright>' in t\<close> of the source is about a character outside ASCII and
  is left out.
\<close>

definition is_actual_heading ::
  "string \<Rightarrow> level \<Rightarrow> real option \<Rightarrow> real option \<Rightarrow> real option \<Rightarrow> real option \<Rightarrow>
   string option \<Rightarrow> bool" where
  "is_actual_heading text level x0 y0 page_width page_height font_name =
     (let t = str_strip text in
      if bracket_enclosed t then False
      else if starts_lowercase t then False
      else if level = H_body then False
      else if length t > 20 \<and> CHR '','' \<in> set t \<and> count_list t CHR '' '' > 5 then False
      else if str_isupper t \<and> length t > 2 then True
      else if bold_font font_name then True
      else if only_number_chars t then False
      else if is_date_or_month_or_number t then False
      else if near_centre x0 page_width then True
      else if near_top y0 page_height then True
      else if length (str_split t) > 10 then False
      else if length t < 2 then False
      else if length t > 100 then False
      else if number_with_period t then False
      else if only_symbols t then False
      else if str_lower t \<in> set non_heading_words then False
      else if page_number_text t then False
      else if str_in ''copyright'' (str_lower t) then False
      else if url_or_email t then False
      else True)"

section \<open>Lines, headings and the result\<close>

text \<open>
  The dictionaries of the source are records. A line record carries what
  \<^verbatim>\<open>extract_all_text_with_font_tags\<close> stores; \<^verbatim>\<open>tag_by_font_hierarchy\<close> adds the key
  \<^verbatim>\<open>level\<close>. A heading carries the keys that \<^verbatim>\<open>process_pdf\<close> copies; a merged heading
  has no key \<^verbatim>\<open>x0\<close>, so \<^verbatim>\<open>item.get('x0')\<close> is \<open>None\<close> for it.
\<close>

record raw_line =
  l_text :: string
  l_font_size :: "real option"
  l_font_name :: "string option"
  l_page :: nat
  l_y0 :: real
  l_x0 :: real
  l_x1 :: real
  l_page_width :: real
  l_page_height :: real

record tagged_line = raw_line +
  l_level :: level

record heading =
  h_level :: level
  h_text :: string
  h_page :: nat
  h_y0 :: real
  h_x0 :: "real option"
  h_font_name :: "string option"
  h_font_size :: "real option"

record outline_entry =
  o_level :: level
  o_text :: string
  o_page :: nat

record document_result =
  title :: string
  outline :: "outline_entry list"

text \<open>Python's truth value of an optional float and of an optional string.\<close>

definition truthy :: "real option \<Rightarrow> bool" where
  "truthy v = (case v of None \<Rightarrow> False | Some x \<Rightarrow> x \<noteq> 0)"

definition truthy_str :: "string option \<Rightarrow> bool" where
  "truthy_str v = (case v of None \<Rightarrow> False | Some s \<Rightarrow> s \<noteq> [])"

text \<open>The value of an optional float that is known to be present.\<close>

definition size_key :: "real option \<Rightarrow> real" where
  "size_key v = (case v of None \<Rightarrow> 0 | Some x \<Rightarrow> x)"

text \<open>
  \<^verbatim>\<open>max(xs, key=...)\<close> on a non-empty sequence, given as its first element and the rest:
  the first element whose key is largest.
\<close>

fun max_by :: "('a \<Rightarrow> 'b::linorder) \<Rightarrow> 'a \<Rightarrow> 'a list \<Rightarrow> 'a" where
  "max_by key best [] = best"
| "max_by key best (x # xs) = (if key best < key x then max_by key x xs else max_by key best xs)"

text \<open>
  A counting dictionary in insertion order: \<^verbatim>\<open>d[k] = d.get(k, 0) + 1\<close> and
  \<^verbatim>\<open>d.get(k, 0)\<close>.
\<close>

fun count_add :: "('k \<times> nat) list \<Rightarrow> 'k \<Rightarrow> ('k \<times> nat) list" where
  "count_add [] k = [(k, 1)]"
| "count_add ((k', n) # d) k = (if k' = k then (k', n + 1) # d else (k', n) # count_add d k)"

definition dict_get :: "('k \<times> nat) list \<Rightarrow> 'k \<Rightarrow> nat" where
  "dict_get d k = (case map_of d k of None \<Rightarrow> 0 | Some n \<Rightarrow> n)"

section \<open>The line normalizer\<close>

text \<open>
  \<^verbatim>\<open>re.sub(r'(P)(Q)', r'\1 \2', text)\<close> for one-character classes \<open>P\<close> and \<open>Q\<close>: matches
  are found left to right and do not overlap.
\<close>

fun space_between :: "(char \<Rightarrow> bool) \<Rightarrow> (char \<Rightarrow> bool) \<Rightarrow> string \<Rightarrow> string" where
  "space_between P Q (a # b # cs) =
     (if P a \<and> Q b then a # CHR '' '' # b # space_between P Q cs
      else a # space_between P Q (b # cs))"
| "space_between P Q cs = cs"

text \<open>\<^verbatim>\<open>re.sub(r'([A-Z])([A-Z][a-z])', r'\1 \2', text)\<close>\<close>

fun space_before_title_case :: "string \<Rightarrow> string" where
  "space_before_title_case (a # b # c # cs) =
     (if isupper_c a \<and> isupper_c b \<and> islower_c c
      then a # CHR '' '' # b # c # space_before_title_case cs
      else a # space_before_title_case (b # c # cs))"
| "space_before_title_case cs = cs"

text \<open>\<^verbatim>\<open>re.sub(r'([a-zA-Z])S([a-zA-Z])', r'\1S \2', text)\<close> for a separator \<open>S\<close>.\<close>

fun space_after :: "char \<Rightarrow> string \<Rightarrow> string" where
  "space_after sep (a # b # c # cs) =
     (if isalpha_c a \<and> b = sep \<and> isalpha_c c
      then a # sep # CHR '' '' # c # space_after sep cs
      else a # space_after sep (b # c # cs))"
| "space_after sep cs = cs"

text \<open>\<^verbatim>\<open>re.sub(r'\s+', ' ', text)\<close>; \<open>in_run\<close> says that the last character was whitespace.\<close>

fun collapse_spaces :: "bool \<Rightarrow> string \<Rightarrow> string" where
  "collapse_spaces in_run [] = []"
| "collapse_spaces in_run (c # cs) =
     (if isspace_c c
      then (if in_run then collapse_spaces True cs else CHR '' '' # collapse_spaces True cs)
      else c # collapse_spaces False cs)"

text \<open>
  \<^verbatim>\<open>clean_text\<close>. Its two substitutions around the bullet sign change nothing in an
  ASCII text.
\<close>

definition clean_text :: "string \<Rightarrow> string" where
  "clean_text text =
     (if text = [] then text
      else
        let t1 = space_between islower_c isupper_c text;
            t2 = space_before_title_case t1;
            t3 = space_between isalpha_c isdigit_c t2;
            t4 = space_between isdigit_c isalpha_c t3;
            t5 = space_after CHR '':'' t4;
            t6 = space_after CHR '','' t5;
            t7 = collapse_spaces False t6
        in str_strip t7)"

text \<open>
  What the page parser gives: a page with its size and its horizontal text lines in
  reading order, a line with its position and its characters (the \<^verbatim>\<open>LTChar\<close> objects),
  a character with its text, font name and size.
\<close>

record glyph =
  g_text :: string
  g_fontname :: string
  g_size :: real

record text_line =
  t_chars :: "glyph list"
  t_y0 :: real
  t_x0 :: real
  t_x1 :: real

record page_layout =
  p_width :: real
  p_height :: real
  p_lines :: "text_line list"

text \<open>A bold character counts one point larger.\<close>

definition glyph_size :: "glyph \<Rightarrow> real" where
  "glyph_size g =
     (if g_fontname g \<noteq> [] \<and>
         list_ex (\<lambda>b. str_in b (g_fontname g)) [''Bold'', ''bold'', ''Heavy'', ''Black'']
      then g_size g + 1 else g_size g)"

text \<open>
  The loop that looks for the character holding the colon: \<open>char_count\<close> and \<open>idx\<close> are the
  loop's variables, the result is \<^verbatim>\<open>split_index\<close>.
\<close>

fun find_split_index :: "nat \<Rightarrow> nat \<Rightarrow> nat \<Rightarrow> string list \<Rightarrow> nat option" where
  "find_split_index colon_index char_count idx [] = None"
| "find_split_index colon_index char_count idx (part # parts) =
     (if char_count + length part > colon_index then Some idx
      else find_split_index colon_index (char_count + length part) (Suc idx) parts)"

text \<open>
  The colon rule: the text, the font names and the font sizes after it. The text is cut
  at the colon when the font changes across it.
\<close>

definition colon_rule ::
  "string \<Rightarrow> string list \<Rightarrow> string list \<Rightarrow> real list \<Rightarrow> string \<times> string list \<times> real list" where
  "colon_rule text text_parts font_names font_sizes =
     (if CHR '':'' \<in> set text then
        (let colon_index = length (takeWhile (\<lambda>c. c \<noteq> CHR '':'') text) in
         case find_split_index colon_index 0 0 text_parts of
           None \<Rightarrow> (text, font_names, font_sizes)
         | Some split_index \<Rightarrow>
             (let after_colon_idx =
                    Suc split_index + length (takeWhile str_isspace (drop (Suc split_index) text_parts))
              in if after_colon_idx < length font_names then
                   (if font_names ! split_index \<noteq> font_names ! after_colon_idx \<or>
                       \<bar>font_sizes ! split_index - font_sizes ! after_colon_idx\<bar> > 0.5
                    then (take colon_index text, take (Suc split_index) font_names,
                          take (Suc split_index) font_sizes)
                    else (text, font_names, font_sizes))
                 else (text, font_names, font_sizes)))
      else (text, font_names, font_sizes))"

text \<open>\<^verbatim>\<open>Counter(font_names).most_common(1)[0][0]\<close>: the first of the most frequent names.\<close>

definition most_common_font :: "string list \<Rightarrow> string option" where
  "most_common_font font_names =
     (case foldl count_add [] font_names of
        [] \<Rightarrow> None
      | kv # kvs \<Rightarrow> Some (fst (max_by snd kv kvs)))"

text \<open>
  The body of the loop over the lines of a page: \<open>None\<close> is \<^verbatim>\<open>continue\<close>, \<open>Some\<close> is the
  record appended to \<^verbatim>\<open>all_text\<close>.
\<close>

definition extract_line :: "nat \<Rightarrow> real \<Rightarrow> real \<Rightarrow> text_line \<Rightarrow> raw_line option" where
  "extract_line page_num page_width page_height line =
     (let text_parts = map g_text (t_chars line);
          text = clean_text (str_strip (concat text_parts))
      in if text = [] \<or> length (str_strip text) < 1 then None
         else
           (case colon_rule text text_parts (map g_fontname (t_chars line))
                   (map glyph_size (t_chars line)) of
              (text', font_names, font_sizes) \<Rightarrow>
                Some \<lparr>l_text = text',
                      l_font_size =
                        (if font_sizes = [] then None
                         else Some (sum_list font_sizes / real (length font_sizes))),
                      l_font_name = (if font_sizes = [] then None else most_common_font font_names),
                      l_page = page_num, l_y0 = t_y0 line, l_x0 = t_x0 line, l_x1 = t_x1 line,
                      l_page_width = page_width, l_page_height = page_height\<rparr>))"

text \<open>\<^verbatim>\<open>for page_num, page_layout in enumerate(extract_pages(pdf_path), 1)\<close>\<close>

fun extract_from :: "nat \<Rightarrow> page_layout list \<Rightarrow> raw_line list" where
  "extract_from page_num [] = []"
| "extract_from page_num (page # pages) =
     List.map_filter (extract_line page_num (p_width page) (p_height page)) (p_lines page) @
     extract_from (Suc page_num) pages"

definition extract_all_text_with_font_tags :: "page_layout list \<Rightarrow> raw_line list" where
  "extract_all_text_with_font_tags pages = extract_from 1 pages"

section \<open>The font hierarchy tagger\<close>

definition tolerance :: real where
  "tolerance = 0.1"

text \<open>\<^verbatim>\<open>[item['font_size'] for item in all_text if item['font_size']]\<close>\<close>

definition font_sizes_of :: "raw_line list \<Rightarrow> real list" where
  "font_sizes_of all_text =
     List.map_filter (\<lambda>item. if truthy (l_font_size item) then l_font_size item else None) all_text"

text \<open>The clustering loop: a size joins the first group within the tolerance, or is a new group.\<close>

fun group_sizes :: "real list \<Rightarrow> real list \<Rightarrow> real list" where
  "group_sizes grouped_sizes [] = grouped_sizes"
| "group_sizes grouped_sizes (sz # sizes) =
     (if list_ex (\<lambda>group. \<bar>sz - group\<bar> \<le> tolerance) grouped_sizes
      then group_sizes grouped_sizes sizes
      else group_sizes (grouped_sizes @ [sz]) sizes)"

text \<open>\<^verbatim>\<open>sorted(grouped_sizes, reverse=True)\<close>\<close>

definition unique_sizes_of :: "raw_line list \<Rightarrow> real list" where
  "unique_sizes_of all_text = rev (sort (group_sizes [] (font_sizes_of all_text)))"

text \<open>
  The dictionary \<^verbatim>\<open>size_to_level\<close>, filled in the order of \<^verbatim>\<open>enumerate(unique_sizes)\<close>; a
  later assignment to the same key would win, so the lookup reads the pairs last to
  first. A missing key is Python's \<^verbatim>\<open>KeyError\<close>.
\<close>

definition size_to_level_of :: "real list \<Rightarrow> (real \<times> level) list" where
  "size_to_level_of unique_sizes = zip unique_sizes (map H [1..<Suc (length unique_sizes)])"

definition lookup_level :: "(real \<times> level) list \<Rightarrow> real \<Rightarrow> error + level" where
  "lookup_level size_to_level s =
     (case map_of (rev size_to_level) s of None \<Rightarrow> Inl KeyError | Some lv \<Rightarrow> Inr lv)"

text \<open>
  The search for the closest group: \<open>best\<close> holds \<^verbatim>\<open>closest_size\<close> and \<^verbatim>\<open>min_diff\<close>, and is
  \<open>None\<close> while \<^verbatim>\<open>closest_size is None\<close> and \<^verbatim>\<open>min_diff\<close> is infinite.
\<close>

fun find_closest :: "real \<Rightarrow> real list \<Rightarrow> (real \<times> real) option \<Rightarrow> (real \<times> real) option" where
  "find_closest fs [] best = best"
| "find_closest fs (sz # sizes) best =
     (let diff = \<bar>fs - sz\<bar> in
      if diff \<le> tolerance \<and> (case best of None \<Rightarrow> True | Some (c, min_diff) \<Rightarrow> diff < min_diff)
      then find_closest fs sizes (Some (sz, diff))
      else find_closest fs sizes best)"

definition with_level :: "raw_line \<Rightarrow> level \<Rightarrow> tagged_line" where
  "with_level item lv =
     \<lparr>l_text = l_text item, l_font_size = l_font_size item, l_font_name = l_font_name item,
      l_page = l_page item, l_y0 = l_y0 item, l_x0 = l_x0 item, l_x1 = l_x1 item,
      l_page_width = l_page_width item, l_page_height = l_page_height item, l_level = lv\<rparr>"

definition tag_item :: "real list \<Rightarrow> (real \<times> level) list \<Rightarrow> raw_line \<Rightarrow> error + tagged_line" where
  "tag_item unique_sizes size_to_level item =
     (case l_font_size item of
        None \<Rightarrow> Inr (with_level item H_body)
      | Some fs \<Rightarrow>
          if fs = 0 then Inr (with_level item H_body)
          else (case find_closest fs unique_sizes None of
                  None \<Rightarrow> Inr (with_level item H_body)
                | Some (closest_size, min_diff) \<Rightarrow>
                    (case lookup_level size_to_level closest_size of
                       Inl e \<Rightarrow> Inl e
                     | Inr lv \<Rightarrow> Inr (with_level item lv))))"

text \<open>A loop whose body may raise: the first error ends it.\<close>

fun map_result :: "('a \<Rightarrow> error + 'b) \<Rightarrow> 'a list \<Rightarrow> error + 'b list" where
  "map_result f [] = Inr []"
| "map_result f (x # xs) =
     (case f x of
        Inl e \<Rightarrow> Inl e
      | Inr y \<Rightarrow> (case map_result f xs of Inl e \<Rightarrow> Inl e | Inr ys \<Rightarrow> Inr (y # ys)))"

definition tag_by_font_hierarchy :: "raw_line list \<Rightarrow> error + tagged_line list" where
  "tag_by_font_hierarchy all_text =
     (if all_text = [] then Inr []
      else let unique_sizes = unique_sizes_of all_text;
               size_to_level = size_to_level_of unique_sizes
           in map_result (tag_item unique_sizes size_to_level) all_text)"

section \<open>Deduplication\<close>

text \<open>\<^verbatim>\<open>remove_duplicate_headings\<close>, with the set \<^verbatim>\<open>seen\<close> as the loop's state.\<close>

fun remove_duplicates_from :: "(string \<times> level) set \<Rightarrow> heading list \<Rightarrow> heading list" where
  "remove_duplicates_from seen [] = []"
| "remove_duplicates_from seen (heading # rest) =
     (let key = (str_lower (str_strip (h_text heading)), h_level heading) in
      if key \<in> seen then remove_duplicates_from seen rest
      else heading # remove_duplicates_from (insert key seen) rest)"

definition remove_duplicate_headings :: "heading list \<Rightarrow> heading list" where
  "remove_duplicate_headings headings = remove_duplicates_from {} headings"

section \<open>The vertical grouper\<close>

text \<open>\<^verbatim>\<open>font.split('-')[0]\<close>\<close>

definition base_font :: "string \<Rightarrow> string" where
  "base_font f = takeWhile (\<lambda>c. c \<noteq> CHR ''-'') f"

definition font_similar :: "string option \<Rightarrow> string option \<Rightarrow> bool" where
  "font_similar current_font next_font =
     (if truthy_str current_font \<and> truthy_str next_font
      then (current_font = next_font \<or>
            map_option base_font current_font = map_option base_font next_font)
      else if \<not> truthy_str current_font \<and> \<not> truthy_str next_font then True
      else False)"

definition size_similar :: "real option \<Rightarrow> real option \<Rightarrow> bool" where
  "size_similar current_size next_size =
     (if truthy current_size \<and> truthy next_size
      then \<bar>size_key current_size - size_key next_size\<bar> \<le> 0.5
      else if \<not> truthy current_size \<and> \<not> truthy next_size then True
      else False)"

text \<open>
  One test of the inner loop: does the group that starts at \<open>current\<close> and has
  \<open>n\<close> members so far take \<open>next_heading\<close>? The distance is measured from \<open>current\<close>, the
  first heading of the group.
\<close>

definition absorbs :: "heading \<Rightarrow> nat \<Rightarrow> heading \<Rightarrow> bool" where
  "absorbs current n next_heading =
     (if h_page next_heading = h_page current then
        (let fsim = font_similar (h_font_name current) (h_font_name next_heading);
             ssim = size_similar (h_font_size current) (h_font_size next_heading);
             vertical_distance = \<bar>h_y0 current - h_y0 next_heading\<bar>
         in if fsim \<and> ssim \<and> vertical_distance \<le> 50 then True
            else if n > 1 then fsim \<and> ssim \<and> vertical_distance \<le> 80
            else False)
      else False)"

text \<open>
  The inner loop from \<open>j\<close> on: \<open>rest\<close> is \<^verbatim>\<open>sorted_headings[j:]\<close>; the result is
  \<^verbatim>\<open>group_headings\<close> and \<^verbatim>\<open>sorted_headings[j:]\<close> when the loop ends.
\<close>

fun absorb :: "heading \<Rightarrow> heading list \<Rightarrow> heading list \<Rightarrow> heading list \<times> heading list" where
  "absorb current group_headings [] = (group_headings, [])"
| "absorb current group_headings (next_heading # rest) =
     (if absorbs current (length group_headings) next_heading
      then absorb current (group_headings @ [next_heading]) rest
      else (group_headings, next_heading # rest))"

text \<open>The level of a merged heading: the first level with the highest count.\<close>

definition majority_level :: "heading list \<Rightarrow> level" where
  "majority_level group_headings =
     (case foldl count_add [] (map h_level group_headings) of
        [] \<Rightarrow> H_body
      | kv # kvs \<Rightarrow> fst (max_by snd kv kvs))"

definition combine :: "heading \<Rightarrow> heading list \<Rightarrow> heading" where
  "combine current group_headings =
     (if length group_headings > 1 then
        \<lparr>h_level = majority_level group_headings,
         h_text = str_join (map (\<lambda>h. str_strip (h_text h)) group_headings),
         h_page = h_page current,
         h_y0 = max_by (\<lambda>y. y) (h_y0 current) (map h_y0 (tl group_headings)),
         h_x0 = None,
         h_font_name = h_font_name current,
         h_font_size = h_font_size current\<rparr>
      else current)"

lemma absorb_rest_length: "length (snd (absorb current group_headings rest)) \<le> length rest"
  by (induction rest arbitrary: group_headings) (auto simp: le_SucI)

text \<open>
  The outer loop from \<open>i\<close> on: the argument is \<^verbatim>\<open>sorted_headings[i:]\<close>, and the next round
  starts where the inner loop stopped (\<^verbatim>\<open>i = j\<close>).
\<close>

function group_loop :: "heading list \<Rightarrow> heading list" where
  "group_loop [] = []"
| "group_loop (current # rest) =
     combine current (fst (absorb current [current] rest)) #
     group_loop (snd (absorb current [current] rest))"
  by pat_completeness auto
termination
  by (relation "measure length") (auto simp: absorb_rest_length less_Suc_eq_le)

text \<open>
  \<^verbatim>\<open>sorted(headings, key=lambda h: (h['page'], -h.get('y0', 0)))\<close>: a stable sort, as
  \<open>sort_key\<close> is.
\<close>

definition sorted_headings_of :: "heading list \<Rightarrow> heading list" where
  "sorted_headings_of headings = sort_key (\<lambda>h. (h_page h, - h_y0 h)) headings"

definition group_vertical_headings :: "heading list \<Rightarrow> heading list" where
  "group_vertical_headings headings =
     (if headings = [] then headings else group_loop (sorted_headings_of headings))"

section \<open>The document driver\<close>

text \<open>Phase 2 of \<^verbatim>\<open>process_pdf\<close>: the tagged lines that the classifier accepts.\<close>

definition accepted :: "tagged_line \<Rightarrow> bool" where
  "accepted item =
     (l_level item \<noteq> H_body \<and>
      is_actual_heading (l_text item) (l_level item) (Some (l_x0 item)) (Some (l_y0 item))
        (Some (l_page_width item)) (Some (l_page_height item)) (l_font_name item))"

definition heading_of :: "tagged_line \<Rightarrow> heading" where
  "heading_of item =
     \<lparr>h_level = l_level item, h_text = str_strip (l_text item), h_page = l_page item,
      h_y0 = l_y0 item, h_x0 = Some (l_x0 item), h_font_name = l_font_name item,
      h_font_size = l_font_size item\<rparr>"

definition classified_headings :: "tagged_line list \<Rightarrow> heading list" where
  "classified_headings tagged_text = map heading_of (filter accepted tagged_text)"

text \<open>\<^verbatim>\<open>all_heading_counts\<close>: every tagged line of a heading level counts.\<close>

definition all_heading_counts_of :: "tagged_line list \<Rightarrow> (level \<times> nat) list" where
  "all_heading_counts_of tagged_text =
     foldl count_add [] (filter (\<lambda>lv. lv \<noteq> H_body) (map l_level tagged_text))"

definition max_items_per_level :: nat where
  "max_items_per_level = 14"

definition max_heading_level :: nat where
  "max_heading_level = 6"

text \<open>
  \<^verbatim>\<open>for i in range(1, 100): ... break\<close>: the first \<open>i\<close> from 1 to 99 whose level has more
  than 14 lines.
\<close>

definition find_breakpoint :: "(level \<times> nat) list \<Rightarrow> level option" where
  "find_breakpoint all_heading_counts =
     map_option H
       (List.find (\<lambda>i. dict_get all_heading_counts (H i) > max_items_per_level) [1..<100])"

text \<open>
  The two loops that keep the headings above a level: \<^verbatim>\<open>int(item['level'][1:])\<close> may
  raise.
\<close>

fun keep_below :: "nat \<Rightarrow> heading list \<Rightarrow> error + heading list" where
  "keep_below k [] = Inr []"
| "keep_below k (item # items) =
     (case level_index (h_level item) of
        Inl e \<Rightarrow> Inl e
      | Inr level_idx \<Rightarrow>
          (case keep_below k items of
             Inl e \<Rightarrow> Inl e
           | Inr kept \<Rightarrow>
               Inr (if level_idx < k \<and> level_idx \<le> max_heading_level then item # kept else kept)))"

text \<open>
  The second call of the classifier, on a heading: a heading has no page size, and a
  merged heading no \<^verbatim>\<open>x0\<close>.
\<close>

definition accepted_again :: "heading \<Rightarrow> bool" where
  "accepted_again item =
     is_actual_heading (h_text item) (h_level item) (h_x0 item) (Some (h_y0 item)) None None
       (h_font_name item)"

definition filter_headings ::
  "level option \<Rightarrow> (level \<times> nat) list \<Rightarrow> heading list \<Rightarrow> error + heading list" where
  "filter_headings breakpoint_level all_heading_counts headings =
     (case breakpoint_level of
        Some bl \<Rightarrow>
          (case level_index bl of
             Inl e \<Rightarrow> Inl e
           | Inr breakpoint_index \<Rightarrow>
               if breakpoint_index = 1
               then Inr (filter (\<lambda>item. h_level item = H 1 \<and> accepted_again item) headings)
               else keep_below breakpoint_index headings)
      | None \<Rightarrow>
          (case all_heading_counts of
             [] \<Rightarrow> Inr []
           | kv # kvs \<Rightarrow>
               (case map_result level_index (map fst (kv # kvs)) of
                  Inl e \<Rightarrow> Inl e
                | Inr [] \<Rightarrow> Inl ValueError
                | Inr (i # idxs) \<Rightarrow> keep_below (max_by (\<lambda>n. n) i idxs) headings)))"

definition cleaned :: "heading \<Rightarrow> outline_entry" where
  "cleaned heading = \<lparr>o_level = h_level heading, o_text = h_text heading, o_page = h_page heading\<rparr>"

text \<open>The candidates of the two title loops on a page.\<close>

definition page_headings_of :: "heading list \<Rightarrow> nat \<Rightarrow> heading list" where
  "page_headings_of headings page_num =
     filter (\<lambda>h. h_page h = page_num \<and> h_level h \<noteq> H_body \<and> truthy (h_font_size h)) headings"

definition page_lines_of :: "tagged_line list \<Rightarrow> nat \<Rightarrow> tagged_line list" where
  "page_lines_of tagged_text page_num =
     filter (\<lambda>l. l_page l = page_num \<and> truthy (l_font_size l)) tagged_text"

text \<open>The first \<^verbatim>\<open>for page_num in [1, 2]\<close> loop: \<open>None\<close> when it ends without \<^verbatim>\<open>break\<close>.\<close>

fun heading_title :: "heading list \<Rightarrow> nat list \<Rightarrow> string option" where
  "heading_title headings [] = None"
| "heading_title headings (page_num # page_nums) =
     (case page_headings_of headings page_num of
        [] \<Rightarrow> heading_title headings page_nums
      | h # page_headings \<Rightarrow>
          Some (h_text (max_by (\<lambda>h. size_key (h_font_size h)) h page_headings)))"

text \<open>The second loop, over the tagged lines.\<close>

fun line_title :: "tagged_line list \<Rightarrow> nat list \<Rightarrow> string option" where
  "line_title tagged_text [] = None"
| "line_title tagged_text (page_num # page_nums) =
     (case page_lines_of tagged_text page_num of
        [] \<Rightarrow> line_title tagged_text page_nums
      | l # page_lines \<Rightarrow> Some (l_text (max_by (\<lambda>l. size_key (l_font_size l)) l page_lines)))"

definition resolve_title :: "string option \<Rightarrow> heading list \<Rightarrow> tagged_line list \<Rightarrow> string" where
  "resolve_title metadata_title headings tagged_text =
     (if truthy_str metadata_title then (case metadata_title of Some m \<Rightarrow> m | None \<Rightarrow> [])
      else (case heading_title headings [1, 2] of
              Some t \<Rightarrow> t
            | None \<Rightarrow>
                (case line_title tagged_text [1, 2] of
                   Some t \<Rightarrow> t
                 | None \<Rightarrow> ''Untitled'')))"

text \<open>
  \<^verbatim>\<open>process_pdf\<close> from the extracted lines on. \<open>Inl e\<close> is an exception that the driver
  catches: nothing is written then.
\<close>

definition grouped_headings_of :: "tagged_line list \<Rightarrow> heading list" where
  "grouped_headings_of tagged_text =
     group_vertical_headings (remove_duplicate_headings (classified_headings tagged_text))"

definition process_lines :: "string option \<Rightarrow> raw_line list \<Rightarrow> error + document_result" where
  "process_lines metadata_title all_text =
     (case tag_by_font_hierarchy all_text of
        Inl e \<Rightarrow> Inl e
      | Inr tagged_text \<Rightarrow>
          (let headings = grouped_headings_of tagged_text;
               all_heading_counts = all_heading_counts_of tagged_text;
               breakpoint_level = find_breakpoint all_heading_counts
           in case filter_headings breakpoint_level all_heading_counts headings of
                Inl e \<Rightarrow> Inl e
              | Inr filtered_headings \<Rightarrow>
                  Inr \<lparr>title = resolve_title metadata_title headings tagged_text,
                       outline = map cleaned filtered_headings\<rparr>))"

text \<open>
  \<^verbatim>\<open>process_pdf\<close>: the page parser either raises or gives the pages; the metadata title
  is what \<^verbatim>\<open>extract_metadata_title\<close> returns.
\<close>

definition process_pdf :: "string option \<Rightarrow> error + page_layout list \<Rightarrow> error + document_result" where
  "process_pdf metadata_title parsed =
     (case parsed of
        Inl e \<Rightarrow> Inl e
      | Inr pages \<Rightarrow> process_lines metadata_title (extract_all_text_with_font_tags pages))"

section \<open>Notions used in the properties\<close>

text \<open>A level that the tagger gives to a line of a clustered size: \<open>H k\<close> with \<open>k\<close> from 1.\<close>

fun heading_level :: "level \<Rightarrow> bool" where
  "heading_level (H k) = (1 \<le> k)"
| "heading_level H_body = False"

text \<open>\<open>tagged_as item t\<close>: \<open>t\<close> is \<open>item\<close> with a level, a heading level or the body level.\<close>

definition tagged_as :: "raw_line \<Rightarrow> tagged_line \<Rightarrow> bool" where
  "tagged_as item t = (\<exists>lv. t = with_level item lv \<and> (lv = H_body \<or> heading_level lv))"

text \<open>The test of the two filtering loops, on a level.\<close>

definition kept_level :: "nat \<Rightarrow> level \<Rightarrow> bool" where
  "kept_level k lv = (case lv of H i \<Rightarrow> i < k \<and> i \<le> max_heading_level | H_body \<Rightarrow> False)"

section \<open>Sample inputs\<close>

text \<open>Texts and documents at which the properties below are evaluated.\<close>

definition caps_sentence :: string where
  "caps_sentence = ''RESULTS, FIGURES AND TABLES OF THE FIRST QUARTER''"

definition six_words :: string where
  "six_words = ''Alpha, beta gamma delta epsilon zeta''"

definition sample_line :: "level \<Rightarrow> tagged_line" where
  "sample_line lv =
     \<lparr>l_text = ''Sample'', l_font_size = Some 12, l_font_name = Some ''Times-Roman'', l_page = 1,
      l_y0 = 700, l_x0 = 72, l_x1 = 300, l_page_width = 612, l_page_height = 792, l_level = lv\<rparr>"

text \<open>One line at level 1 and fifteen at level 2.\<close>

definition fifteen_at_level_two :: "tagged_line list" where
  "fifteen_at_level_two = sample_line (H 1) # replicate 15 (sample_line (H 2))"

text \<open>A hundred levels: one line at each of the levels 1 to 99, fifteen at level 100.\<close>

definition hundred_levels :: "tagged_line list" where
  "hundred_levels = map (\<lambda>i. sample_line (H i)) [1..<100] @ replicate 15 (sample_line (H 100))"

definition line_at :: "string \<Rightarrow> real \<Rightarrow> string \<Rightarrow> nat \<Rightarrow> real \<Rightarrow> raw_line" where
  "line_at t font_size font_name page_num y =
     \<lparr>l_text = t, l_font_size = Some font_size, l_font_name = Some font_name, l_page = page_num,
      l_y0 = y, l_x0 = 72, l_x1 = 300, l_page_width = 612, l_page_height = 792\<rparr>"

definition seven_sizes :: "raw_line list" where
  "seven_sizes =
     [line_at ''ONE'' 24 ''Times-Roman'' 1 700, line_at ''TWO'' 22 ''Times-Roman'' 1 650,
      line_at ''THREE'' 20 ''Times-Roman'' 1 600, line_at ''FOUR'' 18 ''Times-Roman'' 1 550,
      line_at ''FIVE'' 16 ''Times-Roman'' 1 500, line_at ''SIX'' 14 ''Times-Roman'' 1 450,
      line_at ''body text'' 10 ''Times-Roman'' 1 400]"

definition char_at :: "string \<Rightarrow> string \<Rightarrow> real \<Rightarrow> glyph" where
  "char_at t font_name font_size = \<lparr>g_text = t, g_fontname = font_name, g_size = font_size\<rparr>"

definition blank_page :: page_layout where
  "blank_page =
     \<lparr>p_width = 612, p_height = 792,
      p_lines = [\<lparr>t_chars = [char_at '' '' ''Times-Roman'' 10], t_y0 = 700, t_x0 = 72, t_x1 = 80\<rparr>]\<rparr>"

definition note_page :: page_layout where
  "note_page =
     \<lparr>p_width = 612, p_height = 792,
      p_lines = [\<lparr>t_chars = [char_at ''n'' ''Times-Roman'' 10, char_at ''o'' ''Times-Roman'' 10,
                            char_at ''t'' ''Times-Roman'' 10, char_at ''e'' ''Times-Roman'' 10],
                 t_y0 = 700, t_x0 = 72, t_x1 = 100\<rparr>]\<rparr>"

text \<open>The line record of \<open>note_page\<close>, tagged.\<close>

definition note_line :: tagged_line where
  "note_line =
     \<lparr>l_text = ''note'', l_font_size = Some 10, l_font_name = Some ''Times-Roman'', l_page = 1,
      l_y0 = 700, l_x0 = 72, l_x1 = 100, l_page_width = 612, l_page_height = 792, l_level = H 1\<rparr>"

text \<open>Headings of one page, one font and one size, at given heights.\<close>

definition heading_at :: "string \<Rightarrow> level \<Rightarrow> real \<Rightarrow> heading" where
  "heading_at t lv y =
     \<lparr>h_level = lv, h_text = t, h_page = 1, h_y0 = y, h_x0 = Some 72,
      h_font_name = Some ''Arial-BoldMT'', h_font_size = Some 14\<rparr>"

definition three_lines_50_apart :: "heading list" where
  "three_lines_50_apart =
     [heading_at ''First'' (H 1) 700, heading_at ''Second'' (H 1) 650, heading_at ''Third'' (H 1) 600]"

definition three_lines_near_first :: "heading list" where
  "three_lines_near_first =
     [heading_at ''First'' (H 1) 700, heading_at ''Second'' (H 1) 660, heading_at ''Third'' (H 1) 625]"

definition three_lines_shuffled :: "heading list" where
  "three_lines_shuffled =
     [heading_at ''Third'' (H 1) 600, heading_at ''First'' (H 1) 700, heading_at ''Second'' (H 1) 650]"

text \<open>Two headings 30pt apart, the first with spaces around its text.\<close>

definition untrimmed_pair :: "heading list" where
  "untrimmed_pair = [heading_at '' Annual '' (H 1) 700, heading_at ''Report'' (H 1) 670]"

text \<open>A page whose only line starts with a colon in a font of its own.\<close>

definition colon_line :: text_line where
  "colon_line =
     \<lparr>t_chars = [char_at '':'' ''Helvetica-Bold'' 12, char_at '' '' ''Helvetica'' 12,
                 char_at ''o'' ''Helvetica'' 12, char_at ''k'' ''Helvetica'' 12],
      t_y0 = 700, t_x0 = 72, t_x1 = 100\<rparr>"

definition colon_page :: page_layout where
  "colon_page = \<lparr>p_width = 612, p_height = 792, p_lines = [colon_line]\<rparr>"

text \<open>Documents for the title: a rejected large line above an accepted small one, and a lone line on page 2.\<close>

definition intro_doc :: "raw_line list" where
  "intro_doc =
     [line_at ''introduction'' 24 ''Times-Roman'' 1 700, line_at ''SUMMARY'' 12 ''Times-Roman'' 1 600,
      line_at ''more text here'' 10 ''Times-Roman'' 1 500]"

definition note_doc :: "raw_line list" where
  "note_doc = [line_at ''note'' 10 ''Times-Roman'' 2 700]"

definition intro_tagged :: "tagged_line list" where
  "intro_tagged =
     [with_level (line_at ''introduction'' 24 ''Times-Roman'' 1 700) (H 1),
      with_level (line_at ''SUMMARY'' 12 ''Times-Roman'' 1 600) (H 2),
      with_level (line_at ''more text here'' 10 ''Times-Roman'' 1 500) (H 3)]"

definition note_tagged :: "tagged_line list" where
  "note_tagged = [with_level (line_at ''note'' 10 ''Times-Roman'' 2 700) (H 1)]"

text \<open>Documents with the line \<^verbatim>\<open>March 2003\<close>: in a bold font, split over two bold lines, in a regular font beside a bold line, and a bold \<^verbatim>\<open>March\<close> above a regular \<^verbatim>\<open>2003\<close>.\<close>

definition march_bold_doc :: "raw_line list" where
  "march_bold_doc =
     [line_at ''March 2003'' 24 ''Times-Bold'' 1 700, line_at ''text'' 12 ''Times-Roman'' 1 600]"

definition march_split_doc :: "raw_line list" where
  "march_split_doc =
     [line_at ''March'' 24 ''Times-Bold'' 1 700, line_at ''2003'' 24 ''Times-Bold'' 1 670,
      line_at ''text'' 12 ''Times-Roman'' 1 600]"

definition march_beside_bold_doc :: "raw_line list" where
  "march_beside_bold_doc =
     [line_at ''March 2003'' 24 ''Times-Roman'' 1 700, line_at ''Overview'' 18 ''Times-Bold'' 1 600,
      line_at ''text'' 12 ''Times-Roman'' 1 500]"

definition bold_march_plain_year_doc :: "raw_line list" where
  "bold_march_plain_year_doc =
     [line_at ''March'' 24 ''Times-Bold'' 1 700, line_at ''2003'' 24 ''Times-Roman'' 1 670,
      line_at ''text'' 12 ''Times-Roman'' 1 600]"


section \<open>Evaluation\<close>

lemmas char_class_defs =
  isspace_c_def isdigit_c_def isupper_c_def islower_c_def isalpha_c_def isword_c_def lower_c_def

lemmas string_defs =
  str_lower_def str_lstrip_def str_strip_def str_isspace_def str_isupper_def endswith_def
  str_split_def

lemmas pattern_defs =
  only_number_chars_def digits_between_def is_date_sep_def numeric_date_def month_names_def
  month_abbrs_def MONTHS_def year_tail_def day_year_tail_def month_then_def
  is_date_or_month_or_number_def number_with_period_def only_symbols_def page_number_text_def
  url_or_email_def

lemmas classifier_defs =
  bracket_enclosed_def starts_lowercase_def bold_font_def near_centre_def near_top_def
  non_heading_words_def is_actual_heading_def

section \<open>The sentence rule of the classifier\<close>

text \<open>
  C5, as the code has it. For a line whose level is not \<^verbatim>\<open>H_body\<close>, whose stripped text is
  not enclosed in brackets and does not start with a lower-case letter: if the stripped
  text is longer than 20 characters, contains a comma and contains more than 5 space
  characters, the classifier returns false, whatever the font and the case of the text
  are (the rule stands before the upper-case rule and the bold rule). The count is of
  the spaces, not of the words.
\<close>

theorem sentence_rule_spaces:
  assumes "level \<noteq> H_body"
    and "\<not> bracket_enclosed (str_strip text)"
    and "\<not> starts_lowercase (str_strip text)"
    and "length (str_strip text) > 20"
    and "CHR '','' \<in> set (str_strip text)"
    and "count_list (str_strip text) CHR '' '' > 5"
  shows "\<not> is_actual_heading text level x0 y0 page_width page_height font_name"
  using assms by (simp add: is_actual_heading_def)

text \<open>
  The rule at an upper-case sentence in a bold font, which the two accept rules would
  take.
\<close>

theorem sentence_rule_spaces_witness:
  "H 2 \<noteq> H_body \<and>
   \<not> bracket_enclosed (str_strip caps_sentence) \<and>
   \<not> starts_lowercase (str_strip caps_sentence) \<and>
   length (str_strip caps_sentence) > 20 \<and>
   CHR '','' \<in> set (str_strip caps_sentence) \<and>
   count_list (str_strip caps_sentence) CHR '' '' > 5 \<and>
   str_isupper (str_strip caps_sentence) \<and>
   bold_font (Some ''Arial-BoldMT'') \<and>
   \<not> is_actual_heading caps_sentence (H 2) (Some 72) (Some 700) (Some 612) (Some 792)
       (Some ''Arial-BoldMT'')"
proof -
  have s: "str_strip caps_sentence = caps_sentence"
    by (simp add: caps_sentence_def str_strip_def isspace_c_def)
  have 1: "H 2 \<noteq> H_body" by simp
  have 2: "\<not> bracket_enclosed (str_strip caps_sentence)"
    unfolding s by (simp add: caps_sentence_def bracket_enclosed_def endswith_def)
  have 3: "\<not> starts_lowercase (str_strip caps_sentence)"
    unfolding s by (simp add: caps_sentence_def starts_lowercase_def str_lstrip_def char_class_defs)
  have 4: "length (str_strip caps_sentence) > 20"
    unfolding s by (simp add: caps_sentence_def)
  have 5: "CHR '','' \<in> set (str_strip caps_sentence)"
    unfolding s by (simp add: caps_sentence_def)
  have 6: "count_list (str_strip caps_sentence) CHR '' '' > 5"
    unfolding s by (simp add: caps_sentence_def)
  have 7: "str_isupper (str_strip caps_sentence)"
    unfolding s by (simp add: caps_sentence_def str_isupper_def char_class_defs)
  have 8: "bold_font (Some ''Arial-BoldMT'')"
    by (simp add: bold_font_def str_lower_def char_class_defs)
  from sentence_rule_spaces [OF 1 2 3 4 5 6] 1 2 3 4 5 6 7 8 show ?thesis by blast
qed

text \<open>
  The claim as it is written counts words: a text of six words has five spaces, the rule
  does not apply to it, and in a bold font it is a heading.
\<close>

theorem sentence_rule_words_counterexample:
  "H 2 \<noteq> H_body \<and>
   \<not> bracket_enclosed (str_strip six_words) \<and>
   \<not> starts_lowercase (str_strip six_words) \<and>
   length (str_strip six_words) > 20 \<and>
   CHR '','' \<in> set (str_strip six_words) \<and>
   length (str_split (str_strip six_words)) = 6 \<and>
   count_list (str_strip six_words) CHR '' '' = 5 \<and>
   is_actual_heading six_words (H 2) (Some 72) (Some 700) (Some 612) (Some 792)
     (Some ''Arial-BoldMT'')"
  by (simp add: six_words_def char_class_defs string_defs classifier_defs)

section \<open>The breakpoint\<close>

lemma dict_get_count_add:
  "dict_get (count_add d k) k' = (if k = k' then dict_get d k' + 1 else dict_get d k')"
  by (induction d k rule: count_add.induct) (auto simp: dict_get_def)

lemma dict_get_foldl_count_add:
  "dict_get (foldl count_add d ks) k = dict_get d k + count_list ks k"
  by (induction ks arbitrary: d) (auto simp: dict_get_count_add)

lemma count_list_filter_levels:
  "lv \<noteq> H_body \<Longrightarrow> count_list (filter (\<lambda>l. l \<noteq> H_body) ls) lv = count_list ls lv"
  by (induction ls) auto

text \<open>The dictionary holds, for a level, the number of tagged lines of that level.\<close>

lemma all_heading_counts_get:
  "dict_get (all_heading_counts_of tagged_text) (H k) = count_list (map l_level tagged_text) (H k)"
proof -
  have "dict_get ([] :: (level \<times> nat) list) (H k) = 0" by (simp add: dict_get_def)
  then show ?thesis
    by (simp add: all_heading_counts_of_def dict_get_foldl_count_add count_list_filter_levels)
qed

lemma find_upt_Some:
  "List.find P [a..<b] = Some k \<longleftrightarrow> a \<le> k \<and> k < b \<and> P k \<and> (\<forall>j. a \<le> j \<and> j < k \<longrightarrow> \<not> P j)"
proof (induction "b - a" arbitrary: a)
  case 0
  then show ?case by auto
next
  case (Suc n)
  then have ab: "a < b" and n: "n = b - Suc a" by auto
  have upt: "[a..<b] = a # [Suc a..<b]" using ab by (simp add: upt_conv_Cons)
  show ?case
  proof (cases "P a")
    case True
    then show ?thesis using ab upt by (auto simp: not_less)
  next
    case False
    have "List.find P [a..<b] = List.find P [Suc a..<b]" using False upt by simp
    also have "\<dots> = Some k \<longleftrightarrow>
        Suc a \<le> k \<and> k < b \<and> P k \<and> (\<forall>j. Suc a \<le> j \<and> j < k \<longrightarrow> \<not> P j)"
      using Suc.hyps(1) [OF n] .
    finally show ?thesis using False
      by (metis Suc_leD Suc_le_eq le_neq_implies_less not_less_eq_eq)
  qed
qed

lemma find_upt_None:
  "List.find P [a..<b] = None \<longleftrightarrow> (\<forall>k. a \<le> k \<and> k < b \<longrightarrow> \<not> P k)"
  by (auto simp: find_None_iff)

lemma find_breakpoint_Some:
  "find_breakpoint (all_heading_counts_of tagged_text) = Some lv \<longleftrightarrow>
      (\<exists>k. lv = H k \<and> 1 \<le> k \<and> k \<le> 99 \<and>
           14 < count_list (map l_level tagged_text) (H k) \<and>
           (\<forall>j. 1 \<le> j \<and> j < k \<longrightarrow> count_list (map l_level tagged_text) (H j) \<le> 14))"
  unfolding find_breakpoint_def max_items_per_level_def
  by (auto simp: find_upt_Some all_heading_counts_get not_less)

lemma find_breakpoint_None:
  "find_breakpoint (all_heading_counts_of tagged_text) = None \<longleftrightarrow>
      (\<forall>k. 1 \<le> k \<and> k \<le> 99 \<longrightarrow> count_list (map l_level tagged_text) (H k) \<le> 14)"
  unfolding find_breakpoint_def max_items_per_level_def
  by (auto simp: find_upt_None all_heading_counts_get not_less)

lemma count_list_replicate: "count_list (replicate n x) y = (if x = y then n else 0)"
  by (induction n) auto

lemma count_list_levels_upt:
  "count_list (map H [a..<b]) (H k) = (if a \<le> k \<and> k < b then 1 else 0)"
  by (induction b) auto

lemma l_level_sample_line: "l_level (sample_line lv) = lv"
  by (simp add: sample_line_def)

text \<open>
  C6, as the code has it. Whatever the tagged lines are, the breakpoint is the
  lowest-indexed level among H1 to H99 that more than 14 tagged lines have (all tagged
  lines count, classified as headings or not), and no breakpoint is chosen exactly when
  none of the levels H1 to H99 has more than 14 lines. The scan ends at H99.
\<close>

theorem breakpoint_lowest_level_below_100:
  "(find_breakpoint (all_heading_counts_of tagged_text) = Some lv \<longleftrightarrow>
      (\<exists>k. lv = H k \<and> 1 \<le> k \<and> k \<le> 99 \<and>
           14 < count_list (map l_level tagged_text) (H k) \<and>
           (\<forall>j. 1 \<le> j \<and> j < k \<longrightarrow> count_list (map l_level tagged_text) (H j) \<le> 14))) \<and>
   (find_breakpoint (all_heading_counts_of tagged_text) = None \<longleftrightarrow>
      (\<forall>k. 1 \<le> k \<and> k \<le> 99 \<longrightarrow> count_list (map l_level tagged_text) (H k) \<le> 14))"
  using find_breakpoint_Some find_breakpoint_None by blast

text \<open>With one line at H1 and fifteen at H2 the breakpoint is H2.\<close>

theorem breakpoint_lowest_level_witness:
  "count_list (map l_level fifteen_at_level_two) (H 1) = 1 \<and>
   count_list (map l_level fifteen_at_level_two) (H 2) = 15 \<and>
   find_breakpoint (all_heading_counts_of fifteen_at_level_two) = Some (H 2)"
proof -
  have c: "count_list (map l_level fifteen_at_level_two) (H j) =
      (if j = 1 then 1 else if j = 2 then 15 else 0)" for j
    by (simp add: fifteen_at_level_two_def l_level_sample_line count_list_replicate)
  have "\<exists>k. H 2 = H k \<and> 1 \<le> k \<and> k \<le> 99 \<and>
           14 < count_list (map l_level fifteen_at_level_two) (H k) \<and>
           (\<forall>j. 1 \<le> j \<and> j < k \<longrightarrow> count_list (map l_level fifteen_at_level_two) (H j) \<le> 14)"
    by (rule exI [of _ 2]) (simp add: c)
  then show ?thesis
    using breakpoint_lowest_level_below_100 [of fifteen_at_level_two "H 2"] by (simp add: c)
qed

text \<open>
  The claim as it is written speaks of every level. In a document of a hundred font
  sizes where the levels H1 to H99 have one line each and H100 has fifteen, H100 is the
  lowest-indexed level with more than 14 lines, and no breakpoint is chosen.
\<close>

theorem breakpoint_level_100_counterexample:
  "count_list (map l_level hundred_levels) (H 100) = 15 \<and>
   list_all (\<lambda>j. count_list (map l_level hundred_levels) (H j) = 1) [1..<100] \<and>
   find_breakpoint (all_heading_counts_of hundred_levels) = None"
proof -
  have c: "count_list (map l_level hundred_levels) (H j) =
      (if 1 \<le> j \<and> j < 100 then 1 else if j = 100 then 15 else 0)" for j
    by (simp add: hundred_levels_def l_level_sample_line count_list_replicate comp_def
        count_list_levels_upt [unfolded map_map comp_def] del: upt.simps)
  show ?thesis
    by (simp add: find_breakpoint_None c list_all_iff del: upt.simps)
qed

section \<open>The pipeline never raises and keeps heading levels\<close>

lemma find_closest_mem:
  "find_closest fs us best = Some (c, d) \<Longrightarrow> best = Some (c, d) \<or> c \<in> set us"
  by (induction us arbitrary: best) (auto simp: Let_def split: if_splits)

lemma lookup_level_ok:
  assumes "c \<in> set us"
  shows "\<exists>k. lookup_level (size_to_level_of us) c = Inr (H k) \<and> 1 \<le> k"
proof -
  let ?z = "zip us (map H [1..<Suc (length us)])"
  have "map fst ?z = us" by (rule map_fst_zip) (simp del: upt_Suc)
  then have "c \<in> fst ` set (rev ?z)" using assms by (metis set_map set_rev)
  then obtain v where v: "map_of (rev ?z) c = Some v"
    by (metis map_of_eq_None_iff not_Some_eq)
  then have "(c, v) \<in> set ?z" using map_of_SomeD [OF v] by (simp del: upt_Suc)
  then have "v \<in> set (map H [1..<Suc (length us)])" by (rule set_zip_rightD)
  then obtain k where "v = H k" "1 \<le> k" by auto
  then show ?thesis using v by (simp add: lookup_level_def size_to_level_of_def del: upt_Suc)
qed

lemma tag_item_ok:
  "\<exists>lv. tag_item us (size_to_level_of us) item = Inr (with_level item lv) \<and>
        (lv = H_body \<or> (\<exists>k. lv = H k \<and> 1 \<le> k))"
proof (cases "l_font_size item")
  case None
  then show ?thesis by (auto simp: tag_item_def intro!: exI [of _ H_body])
next
  case (Some fs)
  show ?thesis
  proof (cases "fs = 0 \<or> find_closest fs us None = None")
    case True
    then show ?thesis using Some by (auto simp: tag_item_def intro!: exI [of _ H_body])
  next
    case False
    then obtain c d where cd: "find_closest fs us None = Some (c, d)" by auto
    then have "c \<in> set us" using find_closest_mem by fastforce
    from lookup_level_ok [OF this] obtain k where
      "lookup_level (size_to_level_of us) c = Inr (H k)" "1 \<le> k" by blast
    then show ?thesis using Some False cd by (auto simp: tag_item_def)
  qed
qed

lemma map_result_ok:
  "(\<And>x. x \<in> set xs \<Longrightarrow> \<exists>y. f x = Inr y \<and> Q x y) \<Longrightarrow>
   \<exists>ys. map_result f xs = Inr ys \<and> list_all2 Q xs ys"
proof (induction xs)
  case Nil
  then show ?case by simp
next
  case (Cons x xs)
  then obtain y where y: "f x = Inr y" "Q x y" by auto
  have "\<exists>ys. map_result f xs = Inr ys \<and> list_all2 Q xs ys"
    by (rule Cons.IH) (use Cons.prems in auto)
  then obtain ys where ys: "map_result f xs = Inr ys" "list_all2 Q xs ys" by auto
  show ?case using y ys by auto
qed

lemma tag_by_font_hierarchy_ok:
  "\<exists>tagged_text. tag_by_font_hierarchy all_text = Inr tagged_text \<and>
      list_all2 tagged_as all_text tagged_text"
proof (cases "all_text = []")
  case True
  then show ?thesis by (simp add: tag_by_font_hierarchy_def)
next
  case False
  have "\<exists>ys. map_result (tag_item (unique_sizes_of all_text) (size_to_level_of (unique_sizes_of all_text))) all_text = Inr ys \<and>
      list_all2 tagged_as all_text ys"
  proof (rule map_result_ok)
    fix x
    show "\<exists>y. tag_item (unique_sizes_of all_text) (size_to_level_of (unique_sizes_of all_text)) x = Inr y \<and>
        tagged_as x y"
      using tag_item_ok [of "unique_sizes_of all_text" x] unfolding tagged_as_def
      by (metis heading_level.simps(1))
  qed
  then show ?thesis using False by (simp add: tag_by_font_hierarchy_def Let_def)
qed

lemma max_by_mem: "max_by key x xs \<in> set (x # xs)"
  by (induction xs arbitrary: x) auto

lemma max_by_ge_start: "key x \<le> key (max_by key x xs)"
proof (induction xs arbitrary: x)
  case Nil
  then show ?case by simp
next
  case (Cons a xs)
  show ?case using Cons [of a] Cons [of x] by (auto simp: less_imp_le elim: order_trans [rotated])
qed

lemma max_by_greatest: "y \<in> set (x # xs) \<Longrightarrow> key y \<le> key (max_by key x xs)"
proof (induction xs arbitrary: x)
  case Nil
  then show ?case by simp
next
  case (Cons a xs)
  show ?case
  proof (cases "key x < key a")
    case True
    have "key y \<le> key (max_by key a xs)"
    proof (cases "y = x")
      case True
      then show ?thesis using \<open>key x < key a\<close> max_by_ge_start [of key a xs] by auto
    next
      case False
      then show ?thesis using Cons.prems Cons.IH [of a] by auto
    qed
    then show ?thesis using True by simp
  next
    case False
    have "key y \<le> key (max_by key x xs)"
    proof (cases "y = a")
      case True
      then show ?thesis using False max_by_ge_start [of key x xs] by auto
    next
      case False
      then show ?thesis using Cons.prems Cons.IH [of x] by auto
    qed
    then show ?thesis using False by simp
  qed
qed

lemma count_add_keys: "fst ` set (count_add d k) = insert k (fst ` set d)"
  by (induction d k rule: count_add.induct) auto

lemma foldl_count_add_keys: "fst ` set (foldl count_add d ks) = fst ` set d \<union> set ks"
  by (induction ks arbitrary: d) (auto simp: count_add_keys)

lemma majority_level_mem:
  assumes "grp \<noteq> []"
  shows "majority_level grp \<in> h_level ` set grp"
proof -
  let ?d = "foldl count_add [] (map h_level grp)"
  have keys: "fst ` set ?d = h_level ` set grp" by (simp add: foldl_count_add_keys)
  then have "?d \<noteq> []" using assms by auto
  then obtain kv kvs where d: "?d = kv # kvs" by (cases ?d) auto
  have "max_by snd kv kvs \<in> set ?d" using max_by_mem [of snd kv kvs] d by simp
  then have "fst (max_by snd kv kvs) \<in> fst ` set ?d" by (rule imageI)
  then have "fst (max_by snd kv kvs) \<in> h_level ` set grp" unfolding keys .
  then show ?thesis by (simp add: majority_level_def d)
qed

lemma absorb_split:
  "\<exists>ys. fst (absorb c g rest) = g @ ys \<and> rest = ys @ snd (absorb c g rest)"
proof (induction rest arbitrary: g)
  case Nil
  then show ?case by simp
next
  case (Cons n rest)
  show ?case
  proof (cases "absorbs c (length g) n")
    case True
    from Cons.IH [of "g @ [n]"] obtain ys where
      "fst (absorb c (g @ [n]) rest) = (g @ [n]) @ ys" "rest = ys @ snd (absorb c (g @ [n]) rest)"
      by blast
    then show ?thesis using True by (intro exI [of _ "n # ys"]) simp
  next
    case False
    then show ?thesis by simp
  qed
qed

lemma group_loop_segments:
  "\<exists>segs. concat segs = xs \<and> (\<forall>s \<in> set segs. s \<noteq> []) \<and>
      group_loop xs = map (\<lambda>s. combine (hd s) s) segs"
proof (induction xs rule: group_loop.induct)
  case 1
  show ?case by (rule exI [of _ "[]"]) simp
next
  case (2 current rest)
  from absorb_split [of current "[current]" rest] obtain ys where
    ys: "fst (absorb current [current] rest) = current # ys"
        "rest = ys @ snd (absorb current [current] rest)" by auto
  from 2 obtain segs where
    segs: "concat segs = snd (absorb current [current] rest)" "\<forall>s \<in> set segs. s \<noteq> []"
      "group_loop (snd (absorb current [current] rest)) = map (\<lambda>s. combine (hd s) s) segs"
    by blast
  show ?case
    by (rule exI [of _ "(current # ys) # segs"]) (use ys segs in auto)
qed

lemma tagged_as_member:
  assumes "list_all2 tagged_as all_text tagged_text" and "t \<in> set tagged_text"
  shows "\<exists>item \<in> set all_text. tagged_as item t"
  using assms by (metis in_set_conv_nth list_all2_conv_all_nth)

lemma tagged_levels:
  assumes "list_all2 tagged_as all_text tagged_text" and "t \<in> set tagged_text"
  shows "l_level t = H_body \<or> heading_level (l_level t)"
  using tagged_as_member [OF assms] by (auto simp: tagged_as_def with_level_def)

lemma remove_duplicates_from_subset: "set (remove_duplicates_from seen hs) \<subseteq> set hs"
  by (induction hs arbitrary: seen) (auto simp: Let_def)

lemma group_vertical_members:
  assumes "g \<in> set (group_vertical_headings hs)"
  shows "\<exists>s. s \<noteq> [] \<and> set s \<subseteq> set hs \<and> g = combine (hd s) s"
proof (cases "hs = []")
  case True
  then show ?thesis using assms by (simp add: group_vertical_headings_def)
next
  case False
  from group_loop_segments [of "sorted_headings_of hs"] obtain segs where
    segs: "concat segs = sorted_headings_of hs" "\<forall>s \<in> set segs. s \<noteq> []"
      "group_loop (sorted_headings_of hs) = map (\<lambda>s. combine (hd s) s) segs" by blast
  from assms False segs(3) obtain s where s: "s \<in> set segs" "g = combine (hd s) s"
    by (auto simp: group_vertical_headings_def)
  have "set s \<subseteq> set (concat segs)" using s(1) by auto
  then have "set s \<subseteq> set hs" by (simp add: segs(1) sorted_headings_of_def)
  then show ?thesis using s segs(2) by blast
qed

lemma combine_level: "s \<noteq> [] \<Longrightarrow> h_level (combine (hd s) s) \<in> h_level ` set s"
  using majority_level_mem [of s] by (auto simp: combine_def)

lemma grouped_members:
  assumes "g \<in> set (grouped_headings_of tagged_text)"
  shows "\<exists>s. s \<noteq> [] \<and> set s \<subseteq> heading_of ` {l \<in> set tagged_text. accepted l} \<and> g = combine (hd s) s"
proof -
  from group_vertical_members [OF assms [unfolded grouped_headings_of_def]] obtain s where
    s: "s \<noteq> []" "set s \<subseteq> set (remove_duplicate_headings (classified_headings tagged_text))"
      "g = combine (hd s) s" by blast
  have "set (remove_duplicate_headings (classified_headings tagged_text)) \<subseteq>
      heading_of ` {l \<in> set tagged_text. accepted l}"
    using remove_duplicates_from_subset [of "{}" "classified_headings tagged_text"]
    by (auto simp: remove_duplicate_headings_def classified_headings_def)
  then show ?thesis using s by blast
qed

lemma grouped_levels:
  assumes "list_all2 tagged_as all_text tagged_text"
    and "g \<in> set (grouped_headings_of tagged_text)"
  shows "heading_level (h_level g)"
proof -
  from grouped_members [OF assms(2)] obtain s where
    s: "s \<noteq> []" "set s \<subseteq> heading_of ` {l \<in> set tagged_text. accepted l}" "g = combine (hd s) s"
    by blast
  from combine_level [OF s(1)] s(3) obtain h where h: "h \<in> set s" "h_level g = h_level h" by auto
  with s(2) obtain l where l: "l \<in> set tagged_text" "accepted l" "h = heading_of l" by auto
  then have "l_level l \<noteq> H_body" by (simp add: accepted_def)
  with tagged_levels [OF assms(1) l(1)] have "heading_level (l_level l)" by simp
  then show ?thesis using h l by (simp add: heading_of_def)
qed

lemma keep_below_ok:
  "(\<And>h. h \<in> set hs \<Longrightarrow> heading_level (h_level h)) \<Longrightarrow>
   keep_below k hs = Inr (filter (\<lambda>h. kept_level k (h_level h)) hs)"
proof (induction hs)
  case Nil
  then show ?case by simp
next
  case (Cons h hs)
  then have "heading_level (h_level h)" by simp
  then obtain i where i: "h_level h = H i" by (cases "h_level h") auto
  have "keep_below k hs = Inr (filter (\<lambda>h. kept_level k (h_level h)) hs)"
    by (rule Cons.IH) (use Cons.prems in auto)
  then show ?case using i by (simp add: kept_level_def)
qed

lemma level_indices_ok:
  assumes "\<And>lv. lv \<in> set lvs \<Longrightarrow> lv \<noteq> H_body"
  shows "\<exists>idxs. map_result level_index lvs = Inr idxs \<and> length idxs = length lvs"
proof -
  have "\<exists>ys. map_result level_index lvs = Inr ys \<and> list_all2 (\<lambda>x y. True) lvs ys"
  proof (rule map_result_ok)
    fix x assume "x \<in> set lvs"
    then have "x \<noteq> H_body" by (rule assms)
    then show "\<exists>y. level_index x = Inr y \<and> True" by (cases x) auto
  qed
  then show ?thesis by (auto dest: list_all2_lengthD)
qed

lemma all_heading_counts_keys:
  "lv \<in> fst ` set (all_heading_counts_of tagged_text) \<Longrightarrow> lv \<noteq> H_body"
  by (simp add: all_heading_counts_of_def foldl_count_add_keys)

lemma filter_headings_ok:
  assumes "\<And>h. h \<in> set hs \<Longrightarrow> heading_level (h_level h)"
  shows "\<exists>fs. filter_headings (find_breakpoint (all_heading_counts_of tagged_text))
            (all_heading_counts_of tagged_text) hs = Inr fs \<and>
          set fs \<subseteq> set hs \<and> (\<forall>h \<in> set fs. \<exists>i. h_level h = H i \<and> i \<le> max_heading_level)"
proof (cases "find_breakpoint (all_heading_counts_of tagged_text)")
  case None
  show ?thesis
  proof (cases "all_heading_counts_of tagged_text")
    case Nil
    then show ?thesis using None by (simp add: filter_headings_def)
  next
    case (Cons kv kvs)
    have "\<exists>idxs. map_result level_index (map fst (kv # kvs)) = Inr idxs \<and>
        length idxs = length (map fst (kv # kvs))"
      by (rule level_indices_ok) (use all_heading_counts_keys [of _ tagged_text] Cons in auto)
    then obtain i idxs where "map_result level_index (map fst (kv # kvs)) = Inr (i # idxs)"
      by (metis length_0_conv list.exhaust list.simps(3) list.simps(9))
    then show ?thesis using None Cons keep_below_ok [OF assms]
      by (auto simp: filter_headings_def kept_level_def split: level.splits)
  qed
next
  case (Some bl)
  then obtain k where k: "bl = H k" by (auto simp: find_breakpoint_def)
  show ?thesis
  proof (cases "k = 1")
    case True
    then show ?thesis using Some k
      by (auto simp: filter_headings_def max_heading_level_def)
  next
    case False
    then show ?thesis using Some k keep_below_ok [OF assms]
      by (auto simp: filter_headings_def kept_level_def split: level.splits)
  qed
qed

lemma process_lines_ok:
  "\<exists>tagged_text fs. tag_by_font_hierarchy all_text = Inr tagged_text \<and>
     list_all2 tagged_as all_text tagged_text \<and>
     set fs \<subseteq> set (grouped_headings_of tagged_text) \<and>
     (\<forall>h \<in> set fs. \<exists>i. h_level h = H i \<and> 1 \<le> i \<and> i \<le> max_heading_level) \<and>
     process_lines metadata_title all_text =
       Inr \<lparr>title = resolve_title metadata_title (grouped_headings_of tagged_text) tagged_text,
            outline = map cleaned fs\<rparr>"
proof -
  from tag_by_font_hierarchy_ok [of all_text] obtain tagged_text where
    t: "tag_by_font_hierarchy all_text = Inr tagged_text" "list_all2 tagged_as all_text tagged_text"
    by blast
  have lv: "heading_level (h_level h)" if "h \<in> set (grouped_headings_of tagged_text)" for h
    using grouped_levels [OF t(2) that] .
  from filter_headings_ok [of "grouped_headings_of tagged_text" tagged_text, OF lv] obtain fs where
    fs: "filter_headings (find_breakpoint (all_heading_counts_of tagged_text))
            (all_heading_counts_of tagged_text) (grouped_headings_of tagged_text) = Inr fs"
      "set fs \<subseteq> set (grouped_headings_of tagged_text)"
      "\<forall>h \<in> set fs. \<exists>i. h_level h = H i \<and> i \<le> max_heading_level" by blast
  have "\<forall>h \<in> set fs. \<exists>i. h_level h = H i \<and> 1 \<le> i \<and> i \<le> max_heading_level"
  proof
    fix h assume h: "h \<in> set fs"
    with fs(3) obtain i where i: "h_level h = H i" "i \<le> max_heading_level" by blast
    from h fs(2) have "heading_level (h_level h)" using lv by blast
    then show "\<exists>i. h_level h = H i \<and> 1 \<le> i \<and> i \<le> max_heading_level" using i by auto
  qed
  then show ?thesis using t fs by (auto simp: process_lines_def Let_def)
qed

section \<open>The levels of the outline\<close>

lemma outline_levels:
  assumes "process_lines metadata_title all_text = Inr r"
  shows "\<forall>e \<in> set (outline r). \<exists>k. o_level e = H k \<and> 1 \<le> k \<and> k \<le> 6"
proof -
  from process_lines_ok [of all_text metadata_title] assms obtain fs where
    "\<forall>h \<in> set fs. \<exists>i. h_level h = H i \<and> 1 \<le> i \<and> i \<le> max_heading_level"
    "outline r = map cleaned fs" by auto
  then show ?thesis by (auto simp: cleaned_def max_heading_level_def)
qed

text \<open>The same from the parsed pages on.\<close>

lemma process_pdf_outline_levels:
  assumes "process_pdf metadata_title parsed = Inr r"
  shows "\<forall>e \<in> set (outline r). \<exists>k. o_level e = H k \<and> 1 \<le> k \<and> k \<le> 6"
proof (cases parsed)
  case (Inl e)
  then show ?thesis using assms by (simp add: process_pdf_def)
next
  case (Inr pages)
  then show ?thesis using assms outline_levels by (simp add: process_pdf_def)
qed

lemma process_seven_sizes:
  "process_lines None seven_sizes =
     Inr \<lparr>title = ''ONE'',
          outline =
            [\<lparr>o_level = H 1, o_text = ''ONE'', o_page = 1\<rparr>,
             \<lparr>o_level = H 2, o_text = ''TWO'', o_page = 1\<rparr>,
             \<lparr>o_level = H 3, o_text = ''THREE'', o_page = 1\<rparr>,
             \<lparr>o_level = H 4, o_text = ''FOUR'', o_page = 1\<rparr>,
             \<lparr>o_level = H 5, o_text = ''FIVE'', o_page = 1\<rparr>,
             \<lparr>o_level = H 6, o_text = ''SIX'', o_page = 1\<rparr>]\<rparr>"
  by code_simp

text \<open>
  C7. Whatever the metadata title and the lines of the document are, every entry of the
  outline of the result has a level \<open>H k\<close> with \<open>k\<close> from 1 to 6, and it is a record of
  the three fields level, text and page and of nothing else.
\<close>

theorem outline_levels_H1_to_H6:
  assumes "process_lines metadata_title all_text = Inr r"
  shows "\<forall>e \<in> set (outline r).
           (\<exists>k. o_level e = H k \<and> 1 \<le> k \<and> k \<le> 6) \<and>
           e = \<lparr>o_level = o_level e, o_text = o_text e, o_page = o_page e\<rparr>"
  using outline_levels [OF assms] by simp

text \<open>The document of seven font sizes: its outline has six entries, of the levels 1 to 6.\<close>

theorem outline_levels_H1_to_H6_witness:
  "list_all (\<lambda>e. o_level e \<in> set [H 1, H 2, H 3, H 4, H 5, H 6])
     (case process_lines None seven_sizes of Inl e \<Rightarrow> [] | Inr r \<Rightarrow> outline r) \<and>
   map_sum id (\<lambda>r. length (outline r)) (process_lines None seven_sizes) = Inr 6"
  using outline_levels_H1_to_H6 [OF process_seven_sizes] by (simp add: process_seven_sizes)

section \<open>The filter without a breakpoint\<close>

text \<open>
  C1 at a document of seven lines in seven font sizes. Every level has one line, so no
  level has more than 14 and there is no breakpoint; the deepest level is 7. The outline
  holds the heading of level 6: the loop keeps what is below the deepest level and at
  most \<^verbatim>\<open>max_heading_level\<close>, which is 6, where its comment says \<^verbatim>\<open>only up to H5\<close>.
\<close>

theorem no_breakpoint_keeps_level_6:
  "map_sum id (map l_level) (tag_by_font_hierarchy seven_sizes) =
     Inr [H 1, H 2, H 3, H 4, H 5, H 6, H 7] \<and>
   map_sum id (\<lambda>t. find_breakpoint (all_heading_counts_of t)) (tag_by_font_hierarchy seven_sizes) =
     Inr None \<and>
   map_sum id (\<lambda>r. map o_level (outline r)) (process_lines None seven_sizes) =
     Inr [H 1, H 2, H 3, H 4, H 5, H 6]"
proof -
  have "map_sum id (map l_level) (tag_by_font_hierarchy seven_sizes) =
     Inr [H 1, H 2, H 3, H 4, H 5, H 6, H 7]"
    by code_simp
  moreover have "map_sum id (\<lambda>t. find_breakpoint (all_heading_counts_of t))
     (tag_by_font_hierarchy seven_sizes) = Inr None"
    by code_simp
  moreover have "map_sum id (\<lambda>r. map o_level (outline r)) (process_lines None seven_sizes) =
     Inr [H 1, H 2, H 3, H 4, H 5, H 6]"
    by (simp add: process_seven_sizes)
  ultimately show ?thesis by blast
qed

section \<open>The empty document\<close>

lemma find_breakpoint_empty: "find_breakpoint [] = None"
  by (simp add: find_breakpoint_def dict_get_def max_items_per_level_def find_None_iff)

lemma process_no_lines:
  "\<not> truthy_str metadata_title \<Longrightarrow>
   process_lines metadata_title [] = Inr \<lparr>title = ''Untitled'', outline = []\<rparr>"
  by (simp add: process_lines_def tag_by_font_hierarchy_def grouped_headings_of_def
      classified_headings_def remove_duplicate_headings_def group_vertical_headings_def
      all_heading_counts_of_def find_breakpoint_empty filter_headings_def resolve_title_def
      page_headings_of_def page_lines_of_def)

text \<open>
  C9. A document whose pages give no line, with no metadata title, has the result of
  title \<^verbatim>\<open>Untitled\<close> and of empty outline. No parsed document makes the pipeline raise:
  the driver always returns a result. When the classifier accepts no line, that result
  has an empty outline.
\<close>

theorem empty_document_untitled:
  "(extract_all_text_with_font_tags pages = [] \<and> \<not> truthy_str metadata_title \<longrightarrow>
      process_pdf metadata_title (Inr pages) = Inr \<lparr>title = ''Untitled'', outline = []\<rparr>) \<and>
   (\<exists>r. process_pdf metadata_title' (Inr pages') = Inr r) \<and>
   (tag_by_font_hierarchy (extract_all_text_with_font_tags pages'') = Inr tagged_text \<and>
    classified_headings tagged_text = [] \<longrightarrow>
      (\<exists>t. process_pdf metadata_title'' (Inr pages'') = Inr \<lparr>title = t, outline = []\<rparr>))"
proof (intro conjI impI)
  assume "extract_all_text_with_font_tags pages = [] \<and> \<not> truthy_str metadata_title"
  then show "process_pdf metadata_title (Inr pages) = Inr \<lparr>title = ''Untitled'', outline = []\<rparr>"
    by (simp add: process_pdf_def process_no_lines)
next
  show "\<exists>r. process_pdf metadata_title' (Inr pages') = Inr r"
    using process_lines_ok [of "extract_all_text_with_font_tags pages'" metadata_title']
    by (auto simp: process_pdf_def)
next
  assume a: "tag_by_font_hierarchy (extract_all_text_with_font_tags pages'') = Inr tagged_text \<and>
    classified_headings tagged_text = []"
  then have g: "grouped_headings_of tagged_text = []"
    by (simp add: grouped_headings_of_def remove_duplicate_headings_def group_vertical_headings_def)
  from process_lines_ok [of "extract_all_text_with_font_tags pages''" metadata_title''] a g
  show "\<exists>t. process_pdf metadata_title'' (Inr pages'') = Inr \<lparr>title = t, outline = []\<rparr>"
    by (auto simp: process_pdf_def)
qed

text \<open>
  A page whose only line is a space gives no line; a page whose only line is the word
  \<^verbatim>\<open>note\<close> gives one line and no heading.
\<close>

theorem empty_document_untitled_witness:
  "extract_all_text_with_font_tags [blank_page] = [] \<and> \<not> truthy_str None \<and>
   process_pdf None (Inr [blank_page]) = Inr \<lparr>title = ''Untitled'', outline = []\<rparr> \<and>
   tag_by_font_hierarchy (extract_all_text_with_font_tags [note_page]) = Inr [note_line] \<and>
   classified_headings [note_line] = [] \<and>
   process_pdf None (Inr [note_page]) = Inr \<lparr>title = ''note'', outline = []\<rparr>"
proof -
  have 1: "extract_all_text_with_font_tags [blank_page] = []" by code_simp
  have 2: "\<not> truthy_str None" by (simp add: truthy_str_def)
  have 3: "tag_by_font_hierarchy (extract_all_text_with_font_tags [note_page]) = Inr [note_line]"
    by code_simp
  have 4: "classified_headings [note_line] = []" by code_simp
  have 5: "title r = ''note''" if "process_pdf None (Inr [note_page]) = Inr r" for r
  proof -
    have "map_sum id title (process_pdf None (Inr [note_page])) = Inr ''note''" by code_simp
    then show ?thesis using that by simp
  qed
  note t = empty_document_untitled [of "[blank_page]" None None "[note_page]" "[note_page]" "[note_line]" None]
  from t 1 2
  have a: "process_pdf None (Inr [blank_page]) = Inr \<lparr>title = ''Untitled'', outline = []\<rparr>"
    by blast
  from t 3 4 obtain tt where
    "process_pdf None (Inr [note_page]) = Inr \<lparr>title = tt, outline = []\<rparr>" by blast
  then have b: "process_pdf None (Inr [note_page]) = Inr \<lparr>title = ''note'', outline = []\<rparr>"
    using 5 by fastforce
  show ?thesis using 1 2 3 4 a b by blast
qed

section \<open>The vertical grouper on a run\<close>

lemma font_similar_same: "font_similar f f"
  by (simp add: font_similar_def)

lemma size_similar_same: "size_similar s s"
  by (simp add: size_similar_def)

lemma absorb_all:
  assumes "2 \<le> length g"
    and "\<And>h. h \<in> set rest \<Longrightarrow> h_page h = h_page c \<and> h_font_name h = h_font_name c \<and>
           h_font_size h = h_font_size c \<and> \<bar>h_y0 c - h_y0 h\<bar> \<le> 80"
  shows "absorb c g rest = (g @ rest, [])"
  using assms
proof (induction rest arbitrary: g)
  case Nil
  then show ?case by simp
next
  case (Cons n rest)
  have "absorbs c (length g) n"
    using Cons.prems(1) Cons.prems(2) [of n]
    by (simp add: absorbs_def font_similar_same size_similar_same)
  moreover have "absorb c (g @ [n]) rest = ((g @ [n]) @ rest, [])"
    by (rule Cons.IH) (use Cons.prems in auto)
  ultimately show ?case by simp
qed

lemma max_by_first: "(\<And>y. y \<in> set ys \<Longrightarrow> key y \<le> key x) \<Longrightarrow> max_by key x ys = x"
proof (induction ys)
  case Nil
  then show ?case by simp
next
  case (Cons a ys)
  have "\<not> key x < key a" using Cons.prems [of a] by (simp add: not_less)
  moreover have "max_by key x ys = x" by (rule Cons.IH) (use Cons.prems in auto)
  ultimately show ?case by simp
qed

lemma sorted_headings_in_order:
  assumes "\<And>h. h \<in> set hs \<Longrightarrow> h_page h = p"
    and "sorted_wrt (\<lambda>a b. h_y0 b \<le> h_y0 a) hs"
  shows "sorted_headings_of hs = hs"
proof -
  have "sorted (map (\<lambda>h. (h_page h, - h_y0 h)) hs)"
    using assms by (induction hs) (auto simp: less_eq_prod_def)
  then show ?thesis unfolding sorted_headings_of_def by (rule sort_key_id_if_sorted)
qed

text \<open>
  C2, as the code has it. Take two or more headings of one page (so also three or more),
  with the same font name and the same font size, in reading order. If the second lies
  at most 50pt below the first, and every later one at most 80pt below the first, the
  grouper makes of them exactly one heading: the stripped texts joined by spaces in
  order, with the first heading's \<^verbatim>\<open>y0\<close>, the topmost. The distances are measured from
  the first heading of the group, not from one heading to the next.
\<close>

theorem run_near_first_is_one_group:
  assumes same: "\<forall>h \<in> set (h2 # rest). h_page h = h_page h1 \<and> h_font_name h = h_font_name h1 \<and>
                   h_font_size h = h_font_size h1"
    and order: "sorted_wrt (\<lambda>a b. h_y0 b \<le> h_y0 a) (h1 # h2 # rest)"
    and near: "h_y0 h1 - h_y0 h2 \<le> 50"
    and reach: "\<forall>h \<in> set rest. h_y0 h1 - h_y0 h \<le> 80"
  shows "group_vertical_headings (h1 # h2 # rest) =
           [\<lparr>h_level = majority_level (h1 # h2 # rest),
             h_text = str_join (map (\<lambda>h. str_strip (h_text h)) (h1 # h2 # rest)),
             h_page = h_page h1, h_y0 = h_y0 h1, h_x0 = None,
             h_font_name = h_font_name h1, h_font_size = h_font_size h1\<rparr>]"
proof -
  have below: "h_y0 h \<le> h_y0 h1" if "h \<in> set (h2 # rest)" for h
    using order that by auto
  have srt: "sorted_headings_of (h1 # h2 # rest) = h1 # h2 # rest"
    by (rule sorted_headings_in_order [where p = "h_page h1"]) (use same order in auto)
  have first: "absorbs h1 (length [h1]) h2"
    using same near below [of h2]
    by (simp add: absorbs_def font_similar_same size_similar_same)
  have "absorb h1 [h1, h2] rest = ([h1, h2] @ rest, [])"
  proof (rule absorb_all)
    fix h assume "h \<in> set rest"
    then show "h_page h = h_page h1 \<and> h_font_name h = h_font_name h1 \<and>
           h_font_size h = h_font_size h1 \<and> \<bar>h_y0 h1 - h_y0 h\<bar> \<le> 80"
      using same reach below [of h] by auto
  qed simp
  then have ab: "absorb h1 [h1] (h2 # rest) = (h1 # h2 # rest, [])"
    using first by simp
  have top: "max_by (\<lambda>y. y) (h_y0 h1) (map h_y0 (h2 # rest)) = h_y0 h1"
    by (rule max_by_first) (use below in auto)
  have "group_loop (h1 # h2 # rest) = [combine h1 (h1 # h2 # rest)]"
    by (simp only: group_loop.simps ab fst_conv snd_conv)
  then show ?thesis using top by (simp add: group_vertical_headings_def srt combine_def)
qed

text \<open>
  Three lines at 700, 660 and 625: the third is 75pt below the first, which the relaxed
  tolerance allows.
\<close>

theorem run_near_first_is_one_group_witness:
  "map h_y0 three_lines_near_first = [700, 660, 625] \<and>
   group_vertical_headings three_lines_near_first =
     [\<lparr>h_level = H 1, h_text = ''First Second Third'', h_page = 1, h_y0 = 700, h_x0 = None,
       h_font_name = Some ''Arial-BoldMT'', h_font_size = Some 14\<rparr>]"
proof -
  have m: "majority_level three_lines_near_first = H 1" by code_simp
  have j: "str_join (map (\<lambda>h. str_strip (h_text h)) three_lines_near_first) = ''First Second Third''"
    by code_simp
  show ?thesis
    using run_near_first_is_one_group [of "heading_at ''Second'' (H 1) 660"
        "[heading_at ''Third'' (H 1) 625]" "heading_at ''First'' (H 1) 700"] m j
    by (simp add: three_lines_near_first_def heading_at_def)
qed

text \<open>
  The claim as it is written measures the gaps between consecutive headings. Three lines
  at 700, 650 and 600 have gaps of 50pt, and the grouper gives two headings: the third
  line is 100pt below the first.
\<close>

theorem run_50_apart_counterexample:
  "list_all (\<lambda>h. h_page h = 1 \<and> h_font_name h = Some ''Arial-BoldMT'' \<and> h_font_size h = Some 14)
     three_lines_50_apart \<and>
   map h_y0 three_lines_50_apart = [700, 650, 600] \<and>
   group_vertical_headings three_lines_50_apart =
     [\<lparr>h_level = H 1, h_text = ''First Second'', h_page = 1, h_y0 = 700, h_x0 = None,
       h_font_name = Some ''Arial-BoldMT'', h_font_size = Some 14\<rparr>,
      heading_at ''Third'' (H 1) 600]"
  by code_simp

section \<open>The vertical grouper conserves its input\<close>

text \<open>
  C10, as the code has it. The sorted input (page ascending, \<^verbatim>\<open>y0\<close> descending, a
  permutation of the input) is cut into consecutive non-empty pieces, and the output is
  one record for each piece, in that order: no heading is dropped or duplicated. A piece
  of one heading gives that heading unchanged. A piece of several headings gives a record
  whose text is their texts, each stripped of the whitespace around it, joined by single
  spaces in order; for texts that are stripped already, as those of the driver's headings
  are, this is the join of the texts themselves.
\<close>

theorem grouper_conserves_headings:
  "\<exists>segs. concat segs = sorted_headings_of headings \<and>
      mset (concat segs) = mset headings \<and>
      sorted (map (\<lambda>h. (h_page h, - h_y0 h)) (concat segs)) \<and>
      group_vertical_headings headings = map (\<lambda>s. combine (hd s) s) segs \<and>
      (\<forall>s \<in> set segs. s \<noteq> [] \<and>
         (length s = 1 \<longrightarrow> combine (hd s) s = hd s) \<and>
         (1 < length s \<longrightarrow>
            h_text (combine (hd s) s) = str_join (map (\<lambda>h. str_strip (h_text h)) s)) \<and>
         (1 < length s \<and> (\<forall>h \<in> set s. str_strip (h_text h) = h_text h) \<longrightarrow>
            h_text (combine (hd s) s) = str_join (map h_text s)))"
proof -
  from group_loop_segments [of "sorted_headings_of headings"] obtain segs where
    segs: "concat segs = sorted_headings_of headings" "\<forall>s \<in> set segs. s \<noteq> []"
      "group_loop (sorted_headings_of headings) = map (\<lambda>s. combine (hd s) s) segs" by blast
  have g: "group_vertical_headings headings = map (\<lambda>s. combine (hd s) s) segs"
  proof (cases "headings = []")
    case True
    then have "concat segs = []" using segs(1) by (simp add: sorted_headings_of_def)
    then have "segs = []" using segs(2) by (cases segs) auto
    then show ?thesis using True by (simp add: group_vertical_headings_def)
  next
    case False
    then show ?thesis using segs(3) by (simp add: group_vertical_headings_def)
  qed
  have m: "mset (concat segs) = mset headings"
    by (simp add: segs(1) sorted_headings_of_def)
  have s: "sorted (map (\<lambda>h. (h_page h, - h_y0 h)) (concat segs))"
    by (simp add: segs(1) sorted_headings_of_def)
  have t: "(length s = 1 \<longrightarrow> combine (hd s) s = hd s) \<and>
         (1 < length s \<longrightarrow>
            h_text (combine (hd s) s) = str_join (map (\<lambda>h. str_strip (h_text h)) s)) \<and>
         (1 < length s \<and> (\<forall>h \<in> set s. str_strip (h_text h) = h_text h) \<longrightarrow>
            h_text (combine (hd s) s) = str_join (map h_text s))" for s
    by (auto simp: combine_def cong: map_cong)
  show ?thesis
    by (rule exI [of _ segs]) (use segs(1,2) g m s t in blast)
qed


text \<open>Three headings out of order: the sort restores the order, two records come out.\<close>

theorem grouper_conserves_headings_witness:
  "sorted_headings_of three_lines_shuffled = three_lines_50_apart \<and>
   map h_text (group_vertical_headings three_lines_shuffled) = [''First Second'', ''Third''] \<and>
   (\<exists>segs. concat segs = three_lines_50_apart \<and> length segs = 2 \<and>
      group_vertical_headings three_lines_shuffled = map (\<lambda>s. combine (hd s) s) segs)"
proof -
  have 1: "sorted_headings_of three_lines_shuffled = three_lines_50_apart" by code_simp
  have 2: "map h_text (group_vertical_headings three_lines_shuffled) = [''First Second'', ''Third'']"
    by code_simp
  from grouper_conserves_headings [of three_lines_shuffled] obtain segs where
    segs: "concat segs = sorted_headings_of three_lines_shuffled"
      "group_vertical_headings three_lines_shuffled = map (\<lambda>s. combine (hd s) s) segs"
    by blast
  have "length (map h_text (group_vertical_headings three_lines_shuffled)) = 2"
    unfolding 2 by simp
  then have "length segs = 2" by (simp add: segs(2))
  then show ?thesis using 1 2 segs by auto
qed

text \<open>
  The claim as it is written joins the texts of the members. The grouper joins the
  stripped texts: two headings with the texts \<^verbatim>\<open>" Annual "\<close> and \<^verbatim>\<open>"Report"\<close> merge to
  \<^verbatim>\<open>"Annual Report"\<close>, and the join of their texts has three more spaces.
\<close>

theorem merged_text_untrimmed_counterexample:
  "map h_text untrimmed_pair = ['' Annual '', ''Report''] \<and>
   map h_text (group_vertical_headings untrimmed_pair) = [''Annual Report''] \<and>
   str_join (map h_text untrimmed_pair) = '' Annual  Report''"
  by code_simp

section \<open>The colon rule and empty texts\<close>

text \<open>
  C3 at a line that starts with a colon in a bold font, followed by a space and a word
  in a regular font. The text of the line is not empty after cleaning, so the line is
  not skipped; the colon rule then cuts the text at the colon, which is its first
  character, and the record is stored with an empty text and tagged. The test for an
  empty text stands before the colon rule and is not repeated after it.
\<close>

theorem colon_first_line_has_empty_text:
  "clean_text (str_strip (concat (map g_text (t_chars colon_line)))) = '': ok'' \<and>
   map_option l_text (extract_line 1 612 792 colon_line) = Some [] \<and>
   map_sum id (map (\<lambda>l. (l_text l, l_level l)))
     (tag_by_font_hierarchy (extract_all_text_with_font_tags [colon_page])) = Inr [([], H 1)]"
  by code_simp

section \<open>The title\<close>

lemma heading_title_pages:
  "heading_title headings [p, q] =
     (case page_headings_of headings p of
        h # hs \<Rightarrow> Some (h_text (max_by (\<lambda>h. size_key (h_font_size h)) h hs))
      | [] \<Rightarrow>
          (case page_headings_of headings q of
             h # hs \<Rightarrow> Some (h_text (max_by (\<lambda>h. size_key (h_font_size h)) h hs))
           | [] \<Rightarrow> None))"
  by (simp split: list.splits)

lemma line_title_pages:
  "line_title tagged_text [p, q] =
     (case page_lines_of tagged_text p of
        l # ls \<Rightarrow> Some (l_text (max_by (\<lambda>l. size_key (l_font_size l)) l ls))
      | [] \<Rightarrow>
          (case page_lines_of tagged_text q of
             l # ls \<Rightarrow> Some (l_text (max_by (\<lambda>l. size_key (l_font_size l)) l ls))
           | [] \<Rightarrow> None))"
  by (simp split: list.splits)

lemma largest_of_candidates:
  assumes "cands = x # xs"
  shows "\<exists>c \<in> set cands. f (max_by key x xs) = f c \<and> (\<forall>c' \<in> set cands. key c' \<le> key c)"
  using assms max_by_mem [of key x xs] max_by_greatest [of _ x xs key] by blast

lemma process_lines_title:
  assumes "tag_by_font_hierarchy all_text = Inr tagged_text"
    and "process_lines metadata_title all_text = Inr r"
  shows "title r = resolve_title metadata_title (grouped_headings_of tagged_text) tagged_text"
  using assms by (auto simp: process_lines_def Let_def split: sum.splits)

text \<open>
  C4, as the code has it. A non-empty metadata title is the title. Otherwise the title is
  the text of a heading of largest font size among the headings of page 1, or else of
  page 2, where the headings are the classified, deduplicated and grouped ones (so the
  text may be that of a merged heading, and a line that the classifier rejects is no
  candidate). Otherwise it is the text of a tagged line of largest font size on page 1,
  or else on page 2, heading or not. Otherwise it is \<^verbatim>\<open>Untitled\<close>. The first page with a
  candidate decides.
\<close>

theorem title_fallback_chain:
  assumes "tag_by_font_hierarchy all_text = Inr tagged_text"
    and "process_lines metadata_title all_text = Inr r"
  shows
   "(truthy_str metadata_title \<longrightarrow> metadata_title = Some (title r)) \<and>
    (\<not> truthy_str metadata_title \<and> page_headings_of (grouped_headings_of tagged_text) 1 \<noteq> [] \<longrightarrow>
       (\<exists>h \<in> set (page_headings_of (grouped_headings_of tagged_text) 1). title r = h_text h \<and>
          (\<forall>h' \<in> set (page_headings_of (grouped_headings_of tagged_text) 1).
             size_key (h_font_size h') \<le> size_key (h_font_size h)))) \<and>
    (\<not> truthy_str metadata_title \<and> page_headings_of (grouped_headings_of tagged_text) 1 = [] \<and>
     page_headings_of (grouped_headings_of tagged_text) 2 \<noteq> [] \<longrightarrow>
       (\<exists>h \<in> set (page_headings_of (grouped_headings_of tagged_text) 2). title r = h_text h \<and>
          (\<forall>h' \<in> set (page_headings_of (grouped_headings_of tagged_text) 2).
             size_key (h_font_size h') \<le> size_key (h_font_size h)))) \<and>
    (\<not> truthy_str metadata_title \<and> page_headings_of (grouped_headings_of tagged_text) 1 = [] \<and>
     page_headings_of (grouped_headings_of tagged_text) 2 = [] \<and> page_lines_of tagged_text 1 \<noteq> [] \<longrightarrow>
       (\<exists>l \<in> set (page_lines_of tagged_text 1). title r = l_text l \<and>
          (\<forall>l' \<in> set (page_lines_of tagged_text 1).
             size_key (l_font_size l') \<le> size_key (l_font_size l)))) \<and>
    (\<not> truthy_str metadata_title \<and> page_headings_of (grouped_headings_of tagged_text) 1 = [] \<and>
     page_headings_of (grouped_headings_of tagged_text) 2 = [] \<and> page_lines_of tagged_text 1 = [] \<and>
     page_lines_of tagged_text 2 \<noteq> [] \<longrightarrow>
       (\<exists>l \<in> set (page_lines_of tagged_text 2). title r = l_text l \<and>
          (\<forall>l' \<in> set (page_lines_of tagged_text 2).
             size_key (l_font_size l') \<le> size_key (l_font_size l)))) \<and>
    (\<not> truthy_str metadata_title \<and> page_headings_of (grouped_headings_of tagged_text) 1 = [] \<and>
     page_headings_of (grouped_headings_of tagged_text) 2 = [] \<and> page_lines_of tagged_text 1 = [] \<and>
     page_lines_of tagged_text 2 = [] \<longrightarrow> title r = ''Untitled'')"
proof -
  let ?hs = "grouped_headings_of tagged_text"
  have t: "title r = resolve_title metadata_title ?hs tagged_text"
    using process_lines_title [OF assms] .
  have a: "truthy_str metadata_title \<longrightarrow> metadata_title = Some (title r)"
    unfolding t by (cases metadata_title) (auto simp: resolve_title_def truthy_str_def)
  have h: "\<exists>h \<in> set (page_headings_of ?hs p). h_text (max_by (\<lambda>h. size_key (h_font_size h)) x xs) = h_text h \<and>
          (\<forall>h' \<in> set (page_headings_of ?hs p). size_key (h_font_size h') \<le> size_key (h_font_size h))"
    if "page_headings_of ?hs p = x # xs" for p x xs
    using largest_of_candidates [OF that, of h_text "\<lambda>h. size_key (h_font_size h)"] .
  have l: "\<exists>l \<in> set (page_lines_of tagged_text p). l_text (max_by (\<lambda>l. size_key (l_font_size l)) x xs) = l_text l \<and>
          (\<forall>l' \<in> set (page_lines_of tagged_text p). size_key (l_font_size l') \<le> size_key (l_font_size l))"
    if "page_lines_of tagged_text p = x # xs" for p x xs
    using largest_of_candidates [OF that, of l_text "\<lambda>l. size_key (l_font_size l)"] .
  have b: "\<not> truthy_str metadata_title \<and> page_headings_of ?hs 1 \<noteq> [] \<longrightarrow>
       (\<exists>h \<in> set (page_headings_of ?hs 1). title r = h_text h \<and>
          (\<forall>h' \<in> set (page_headings_of ?hs 1). size_key (h_font_size h') \<le> size_key (h_font_size h)))"
  proof
    assume p: "\<not> truthy_str metadata_title \<and> page_headings_of ?hs 1 \<noteq> []"
    then obtain x xs where x: "page_headings_of ?hs 1 = x # xs" by (cases "page_headings_of ?hs 1") auto
    have "title r = h_text (max_by (\<lambda>h. size_key (h_font_size h)) x xs)"
      unfolding t using p x by (simp add: resolve_title_def heading_title_pages del: heading_title.simps)
    then show "\<exists>h \<in> set (page_headings_of ?hs 1). title r = h_text h \<and>
          (\<forall>h' \<in> set (page_headings_of ?hs 1). size_key (h_font_size h') \<le> size_key (h_font_size h))"
      using h [OF x] by simp
  qed
  have c: "\<not> truthy_str metadata_title \<and> page_headings_of ?hs 1 = [] \<and> page_headings_of ?hs 2 \<noteq> [] \<longrightarrow>
       (\<exists>h \<in> set (page_headings_of ?hs 2). title r = h_text h \<and>
          (\<forall>h' \<in> set (page_headings_of ?hs 2). size_key (h_font_size h') \<le> size_key (h_font_size h)))"
  proof
    assume p: "\<not> truthy_str metadata_title \<and> page_headings_of ?hs 1 = [] \<and> page_headings_of ?hs 2 \<noteq> []"
    then obtain x xs where x: "page_headings_of ?hs 2 = x # xs" by (cases "page_headings_of ?hs 2") auto
    have "title r = h_text (max_by (\<lambda>h. size_key (h_font_size h)) x xs)"
      unfolding t using p x by (simp add: resolve_title_def heading_title_pages del: heading_title.simps)
    then show "\<exists>h \<in> set (page_headings_of ?hs 2). title r = h_text h \<and>
          (\<forall>h' \<in> set (page_headings_of ?hs 2). size_key (h_font_size h') \<le> size_key (h_font_size h))"
      using h [OF x] by simp
  qed
  have d: "\<not> truthy_str metadata_title \<and> page_headings_of ?hs 1 = [] \<and> page_headings_of ?hs 2 = [] \<and>
      page_lines_of tagged_text 1 \<noteq> [] \<longrightarrow>
       (\<exists>l \<in> set (page_lines_of tagged_text 1). title r = l_text l \<and>
          (\<forall>l' \<in> set (page_lines_of tagged_text 1). size_key (l_font_size l') \<le> size_key (l_font_size l)))"
  proof
    assume p: "\<not> truthy_str metadata_title \<and> page_headings_of ?hs 1 = [] \<and> page_headings_of ?hs 2 = [] \<and>
      page_lines_of tagged_text 1 \<noteq> []"
    then obtain x xs where x: "page_lines_of tagged_text 1 = x # xs"
      by (cases "page_lines_of tagged_text 1") auto
    have "title r = l_text (max_by (\<lambda>l. size_key (l_font_size l)) x xs)"
      unfolding t using p x
      by (simp add: resolve_title_def heading_title_pages line_title_pages
          del: heading_title.simps line_title.simps)
    then show "\<exists>l \<in> set (page_lines_of tagged_text 1). title r = l_text l \<and>
          (\<forall>l' \<in> set (page_lines_of tagged_text 1). size_key (l_font_size l') \<le> size_key (l_font_size l))"
      using l [OF x] by simp
  qed
  have e: "\<not> truthy_str metadata_title \<and> page_headings_of ?hs 1 = [] \<and> page_headings_of ?hs 2 = [] \<and>
      page_lines_of tagged_text 1 = [] \<and> page_lines_of tagged_text 2 \<noteq> [] \<longrightarrow>
       (\<exists>l \<in> set (page_lines_of tagged_text 2). title r = l_text l \<and>
          (\<forall>l' \<in> set (page_lines_of tagged_text 2). size_key (l_font_size l') \<le> size_key (l_font_size l)))"
  proof
    assume p: "\<not> truthy_str metadata_title \<and> page_headings_of ?hs 1 = [] \<and> page_headings_of ?hs 2 = [] \<and>
      page_lines_of tagged_text 1 = [] \<and> page_lines_of tagged_text 2 \<noteq> []"
    then obtain x xs where x: "page_lines_of tagged_text 2 = x # xs"
      by (cases "page_lines_of tagged_text 2") auto
    have "title r = l_text (max_by (\<lambda>l. size_key (l_font_size l)) x xs)"
      unfolding t using p x
      by (simp add: resolve_title_def heading_title_pages line_title_pages
          del: heading_title.simps line_title.simps)
    then show "\<exists>l \<in> set (page_lines_of tagged_text 2). title r = l_text l \<and>
          (\<forall>l' \<in> set (page_lines_of tagged_text 2). size_key (l_font_size l') \<le> size_key (l_font_size l))"
      using l [OF x] by simp
  qed
  have f: "\<not> truthy_str metadata_title \<and> page_headings_of ?hs 1 = [] \<and> page_headings_of ?hs 2 = [] \<and>
      page_lines_of tagged_text 1 = [] \<and> page_lines_of tagged_text 2 = [] \<longrightarrow> title r = ''Untitled''"
    unfolding t
    by (simp add: resolve_title_def heading_title_pages line_title_pages
        del: heading_title.simps line_title.simps)
  from a b c d e f show ?thesis by blast
qed

text \<open>
  The chain at four documents: with a metadata title; with an accepted heading on page
  1; with one line on page 2 that is no heading; with no line.
\<close>

theorem title_fallback_chain_witness:
  "map_sum id title (process_lines (Some ''Annual Report'') intro_doc) = Inr ''Annual Report'' \<and>
   map_sum id title (process_lines None intro_doc) = Inr ''SUMMARY'' \<and>
   map_sum id title (process_lines None note_doc) = Inr ''note'' \<and>
   map_sum id title (process_lines None []) = Inr ''Untitled''"
proof -
  have ti: "tag_by_font_hierarchy intro_doc = Inr intro_tagged" by code_simp
  have tn: "tag_by_font_hierarchy note_doc = Inr note_tagged" by code_simp
  have te: "tag_by_font_hierarchy [] = Inr []" by code_simp
  have m: "truthy_str (Some ''Annual Report'')" "\<not> truthy_str None" by (simp_all add: truthy_str_def)
  have hi: "map h_text (page_headings_of (grouped_headings_of intro_tagged) 1) = [''SUMMARY'']"
    by code_simp
  have hn: "page_headings_of (grouped_headings_of note_tagged) 1 = []"
    "page_headings_of (grouped_headings_of note_tagged) 2 = []"
    "page_lines_of note_tagged 1 = []"
    "map l_text (page_lines_of note_tagged 2) = [''note'']"
    by code_simp+
  have he: "page_headings_of (grouped_headings_of []) 1 = []"
    "page_headings_of (grouped_headings_of []) 2 = []"
    "page_lines_of [] 1 = []" "page_lines_of [] 2 = []"
    by code_simp+
  obtain r1 where r1: "process_lines (Some ''Annual Report'') intro_doc = Inr r1"
    using process_lines_ok [of intro_doc "Some ''Annual Report''"] by blast
  obtain r2 where r2: "process_lines None intro_doc = Inr r2"
    using process_lines_ok [of intro_doc None] by blast
  obtain r3 where r3: "process_lines None note_doc = Inr r3"
    using process_lines_ok [of note_doc None] by blast
  obtain r4 where r4: "process_lines None [] = Inr r4"
    using process_lines_ok [of "[]" None] by blast
  have 1: "title r1 = ''Annual Report''"
    using title_fallback_chain [OF ti r1] m by simp
  have "page_headings_of (grouped_headings_of intro_tagged) 1 \<noteq> []" using hi by auto
  with title_fallback_chain [OF ti r2] m obtain h where
    "h \<in> set (page_headings_of (grouped_headings_of intro_tagged) 1)" "title r2 = h_text h" by blast
  then have "title r2 \<in> set (map h_text (page_headings_of (grouped_headings_of intro_tagged) 1))"
    by auto
  then have 2: "title r2 = ''SUMMARY''" unfolding hi by simp
  have "page_lines_of note_tagged 2 \<noteq> []" using hn(4) by auto
  with title_fallback_chain [OF tn r3] m hn(1-3) obtain l where
    "l \<in> set (page_lines_of note_tagged 2)" "title r3 = l_text l" by blast
  then have "title r3 \<in> set (map l_text (page_lines_of note_tagged 2))" by auto
  then have 3: "title r3 = ''note''" unfolding hn(4) by simp
  have 4: "title r4 = ''Untitled''"
    using title_fallback_chain [OF te r4] m he by blast
  show ?thesis by (simp add: r1 r2 r3 r4 1 2 3 4)
qed

text \<open>
  The claim as it is written takes the largest heading-level tagged line. On page 1 of
  this document the tagged lines are all of heading levels, and the largest is
  \<^verbatim>\<open>introduction\<close> at 24pt; the classifier rejects it for its lower-case start, and the
  title is the text of the accepted heading at 12pt.
\<close>

theorem title_rejected_line_counterexample:
  "map_sum id (map (\<lambda>l. (l_text l, l_level l, l_page l, l_font_size l)))
     (tag_by_font_hierarchy intro_doc) =
     Inr [(''introduction'', H 1, 1, Some 24), (''SUMMARY'', H 2, 1, Some 12),
          (''more text here'', H 3, 1, Some 10)] \<and>
   map_sum id title (process_lines None intro_doc) = Inr ''SUMMARY''"
  by code_simp

section \<open>The date rule\<close>

lemma str_strip_idem: "str_strip (str_strip s) = str_strip s"
proof -
  define a where "a = dropWhile isspace_c s"
  define b where "b = rev (dropWhile isspace_c (rev a))"
  have rb: "rev b = dropWhile isspace_c (rev a)" by (simp add: b_def)
  have "rev a = takeWhile isspace_c (rev a) @ rev b" by (simp add: rb)
  then have "rev (rev a) = rev (takeWhile isspace_c (rev a) @ rev b)" by simp
  then have ab: "a = b @ rev (takeWhile isspace_c (rev a))" by simp
  have "dropWhile isspace_c b = b"
  proof (cases b)
    case Nil
    then show ?thesis by simp
  next
    case (Cons c cs)
    then have "a \<noteq> []" and "hd a = c" using ab by (metis append_Cons list.simps(3), metis append_Cons list.sel(1))
    then have "\<not> isspace_c c" using hd_dropWhile [of isspace_c s] by (simp add: a_def)
    then show ?thesis using Cons by simp
  qed
  moreover have "dropWhile isspace_c (rev b) = rev b"
    unfolding rb by (rule dropWhile_idem)
  ultimately have "rev (dropWhile isspace_c (rev (dropWhile isspace_c b))) = b" by simp
  then show ?thesis by (simp add: str_strip_def b_def a_def)
qed

lemma march_2003_rejected:
  assumes "str_strip text = ''March 2003''" and "\<not> bold_font font_name"
  shows "\<not> is_actual_heading text level x0 y0 page_width page_height font_name"
proof -
  have d: "is_date_or_month_or_number ''March 2003''"
    by (simp add: char_class_defs string_defs pattern_defs)
  have u: "\<not> str_isupper ''March 2003''" by (simp add: str_isupper_def char_class_defs)
  have n: "\<not> only_number_chars ''March 2003''" by (simp add: only_number_chars_def char_class_defs)
  have b: "\<not> bracket_enclosed ''March 2003''" by (simp add: bracket_enclosed_def endswith_def)
  show ?thesis using assms d u n b by (simp add: is_actual_heading_def)
qed

lemma march_rejected:
  assumes "str_strip text = ''March''" and "\<not> bold_font font_name"
  shows "\<not> is_actual_heading text level x0 y0 page_width page_height font_name"
proof -
  have d: "is_date_or_month_or_number ''March''"
    by (simp add: char_class_defs string_defs pattern_defs)
  have u: "\<not> str_isupper ''March''" by (simp add: str_isupper_def char_class_defs)
  have n: "\<not> only_number_chars ''March''" by (simp add: only_number_chars_def char_class_defs)
  have b: "\<not> bracket_enclosed ''March''" by (simp add: bracket_enclosed_def endswith_def)
  show ?thesis using assms d u n b by (simp add: is_actual_heading_def)
qed

lemma tagged_as_fields:
  "tagged_as item t \<Longrightarrow> l_text t = l_text item \<and> l_font_name t = l_font_name item"
  by (auto simp: tagged_as_def with_level_def)

text \<open>What holds of a classified heading when no line has a bold font.\<close>

lemma year_2003_rejected:
  assumes "str_strip text = ''2003''" and "\<not> bold_font font_name"
  shows "\<not> is_actual_heading text level x0 y0 page_width page_height font_name"
proof -
  have u: "\<not> str_isupper ''2003''" by (simp add: str_isupper_def char_class_defs)
  have n: "only_number_chars ''2003''" by (simp add: only_number_chars_def char_class_defs)
  show ?thesis using assms u n by (simp add: is_actual_heading_def)
qed

lemma join_march_2003_parts:
  assumes "str_join (a # b # bs) = ''March 2003''"
  shows "a = ''March'' \<and> b = ''2003'' \<and> bs = []"
proof -
  from assms have "a @ CHR '' '' # str_join (b # bs) = ''March 2003''" by simp
  then have a: "a = ''March''" and r: "str_join (b # bs) = ''2003''"
    by (auto simp: append_eq_Cons_conv)
  have "bs = []"
  proof (cases bs)
    case Nil
    then show ?thesis .
  next
    case (Cons c cs)
    then have "b @ CHR '' '' # str_join (c # cs) = ''2003''" using r by simp
    then show ?thesis by (auto simp: append_eq_Cons_conv)
  qed
  then show ?thesis using a r by simp
qed

text \<open>A classified heading is the stripped text of a line that the classifier accepted.\<close>

lemma classified_origin:
  assumes tg: "list_all2 tagged_as all_text tagged_text"
    and h: "h \<in> heading_of ` {l \<in> set tagged_text. accepted l}"
  shows "\<exists>item \<in> set all_text. \<exists>level x0 y0 page_width page_height.
           h_text h = str_strip (l_text item) \<and>
           is_actual_heading (l_text item) level x0 y0 page_width page_height (l_font_name item)"
proof -
  from h obtain t where t: "t \<in> set tagged_text" "accepted t" "h = heading_of t" by auto
  from tagged_as_member [OF tg t(1)] obtain item where
    item: "item \<in> set all_text" "tagged_as item t" by blast
  have "is_actual_heading (l_text item) (l_level t) (Some (l_x0 t)) (Some (l_y0 t))
      (Some (l_page_width t)) (Some (l_page_height t)) (l_font_name item)"
    using t(2) tagged_as_fields [OF item(2)] by (simp add: accepted_def)
  moreover have "h_text h = str_strip (l_text item)"
    using t(3) tagged_as_fields [OF item(2)] by (simp add: heading_of_def)
  ultimately show ?thesis using item(1) by blast
qed

text \<open>
  C8, as the code has it. Take a document in which no line that reads \<^verbatim>\<open>March 2003\<close> has
  a font name with one of the markers \<^verbatim>\<open>bold\<close>, \<^verbatim>\<open>b\<close>, \<^verbatim>\<open>heavy\<close>, \<^verbatim>\<open>black\<close> (in any case),
  and in which the lines that read \<^verbatim>\<open>March\<close> have no such font name or the lines that read
  \<^verbatim>\<open>2003\<close> have none; the other lines may be in any font. Then no entry of the outline
  has the text \<^verbatim>\<open>March 2003\<close>: the classifier rejects a line that reads so at every level
  and every position, the date rule standing before the two rules of position, and no
  merged heading has that text either, since it would be merged from an accepted
  \<^verbatim>\<open>March\<close> and an accepted \<^verbatim>\<open>2003\<close>, which the classifier accepts in such a font only.
  The bold rule stands before the date rule.
\<close>

theorem march_2003_not_in_outline:
  assumes whole: "\<forall>l \<in> set all_text. str_strip (l_text l) = ''March 2003'' \<longrightarrow> \<not> bold_font (l_font_name l)"
    and parts: "(\<forall>l \<in> set all_text. str_strip (l_text l) = ''March'' \<longrightarrow> \<not> bold_font (l_font_name l)) \<or>
                (\<forall>l \<in> set all_text. str_strip (l_text l) = ''2003'' \<longrightarrow> \<not> bold_font (l_font_name l))"
    and res: "process_lines metadata_title all_text = Inr r"
  shows "(\<forall>e \<in> set (outline r). o_text e \<noteq> ''March 2003'') \<and>
         (\<forall>l \<in> set all_text. str_strip (l_text l) = ''March 2003'' \<longrightarrow>
            (\<forall>level x0 y0 page_width page_height.
               \<not> is_actual_heading (l_text l) level x0 y0 page_width page_height (l_font_name l)))"
proof
  from process_lines_ok [of all_text metadata_title] res obtain tagged_text fs where
    tg: "list_all2 tagged_as all_text tagged_text"
    and fs: "set fs \<subseteq> set (grouped_headings_of tagged_text)"
    and out: "outline r = map cleaned fs" by auto
  have single: "h_text h \<noteq> ''March 2003''"
    if "h \<in> heading_of ` {l \<in> set tagged_text. accepted l}" for h
  proof
    assume eq: "h_text h = ''March 2003''"
    from classified_origin [OF tg that] obtain item level x0 y0 page_width page_height where
      item: "item \<in> set all_text" "h_text h = str_strip (l_text item)"
        "is_actual_heading (l_text item) level x0 y0 page_width page_height (l_font_name item)"
      by blast
    have "str_strip (l_text item) = ''March 2003''" using eq item(2) by simp
    then show False using whole item(1,3) march_2003_rejected by blast
  qed
  have part: "\<exists>item \<in> set all_text. str_strip (l_text item) = w \<and> bold_font (l_font_name item)"
    if "h \<in> heading_of ` {l \<in> set tagged_text. accepted l}"
      and "str_strip (h_text h) = w" and "w = ''March'' \<or> w = ''2003''" for h w
  proof -
    from classified_origin [OF tg that(1)] obtain item level x0 y0 page_width page_height where
      item: "item \<in> set all_text" "h_text h = str_strip (l_text item)"
        "is_actual_heading (l_text item) level x0 y0 page_width page_height (l_font_name item)"
      by blast
    have w: "str_strip (l_text item) = w" using that(2) item(2) by (simp add: str_strip_idem)
    have "bold_font (l_font_name item)"
      using that(3) w item(3) march_rejected year_2003_rejected by blast
    then show ?thesis using item(1) w by blast
  qed
  show "\<forall>e \<in> set (outline r). o_text e \<noteq> ''March 2003''"
  proof
    fix e assume "e \<in> set (outline r)"
    then obtain g where g: "g \<in> set fs" "e = cleaned g" using out by auto
    from grouped_members [of g tagged_text] g(1) fs obtain s where
      s: "s \<noteq> []" "set s \<subseteq> heading_of ` {l \<in> set tagged_text. accepted l}" "g = combine (hd s) s"
      by blast
    have "h_text (combine (hd s) s) \<noteq> ''March 2003''"
    proof (cases s)
      case Nil
      then show ?thesis using s(1) by simp
    next
      case (Cons a rest)
      show ?thesis
      proof (cases rest)
        case Nil
        then show ?thesis using \<open>s = a # rest\<close> single [of a] s(2) by (simp add: combine_def)
      next
        case (Cons b bs)
        have ab: "a \<in> heading_of ` {l \<in> set tagged_text. accepted l}"
          "b \<in> heading_of ` {l \<in> set tagged_text. accepted l}"
          using s(2) \<open>s = a # rest\<close> Cons by auto
        have "str_join (map (\<lambda>h. str_strip (h_text h)) s) \<noteq> ''March 2003''"
        proof
          assume "str_join (map (\<lambda>h. str_strip (h_text h)) s) = ''March 2003''"
          then have "str_join (str_strip (h_text a) # str_strip (h_text b) #
              map (\<lambda>h. str_strip (h_text h)) bs) = ''March 2003''"
            using \<open>s = a # rest\<close> Cons by simp
          from join_march_2003_parts [OF this]
          have m: "str_strip (h_text a) = ''March''" and y: "str_strip (h_text b) = ''2003''"
            by simp_all
          from part [OF ab(1) m] obtain ia where
            "ia \<in> set all_text" "str_strip (l_text ia) = ''March''" "bold_font (l_font_name ia)"
            by blast
          moreover from part [OF ab(2) y] obtain ib where
            "ib \<in> set all_text" "str_strip (l_text ib) = ''2003''" "bold_font (l_font_name ib)"
            by blast
          ultimately show False using parts by blast
        qed
        then show ?thesis using \<open>s = a # rest\<close> Cons by (simp add: combine_def)
      qed
    qed
    then show "o_text e \<noteq> ''March 2003''" using g(2) s(3) by (simp add: cleaned_def)
  qed
next
  show "\<forall>l \<in> set all_text. str_strip (l_text l) = ''March 2003'' \<longrightarrow>
            (\<forall>level x0 y0 page_width page_height.
               \<not> is_actual_heading (l_text l) level x0 y0 page_width page_height (l_font_name l))"
    using whole march_2003_rejected by blast
qed

text \<open>
  Two documents. In the first a line \<^verbatim>\<open>March 2003\<close> in a regular font stands beside a bold
  \<^verbatim>\<open>Overview\<close>: the outline is \<^verbatim>\<open>Overview\<close>, and at the centre of the page and in its top
  part the line \<^verbatim>\<open>March 2003\<close> is rejected all the same. In the second a bold \<^verbatim>\<open>March\<close>
  stands above a regular \<^verbatim>\<open>2003\<close>: the outline is \<^verbatim>\<open>March\<close>.
\<close>

theorem march_2003_not_in_outline_witness:
  "list_all (\<lambda>l. str_strip (l_text l) \<notin> set [''March 2003'', ''March'', ''2003''] \<or>
                 \<not> bold_font (l_font_name l)) march_beside_bold_doc \<and>
   list_ex (\<lambda>l. bold_font (l_font_name l)) march_beside_bold_doc \<and>
   map_sum id (\<lambda>r. map o_text (outline r)) (process_lines None march_beside_bold_doc) =
     Inr [''Overview''] \<and>
   \<not> is_actual_heading ''March 2003'' (H 1) (Some 306) (Some 700) (Some 612) (Some 792)
       (Some ''Times-Roman'') \<and>
   list_all (\<lambda>l. str_strip (l_text l) \<notin> set [''March 2003'', ''2003''] \<or>
                 \<not> bold_font (l_font_name l)) bold_march_plain_year_doc \<and>
   list_ex (\<lambda>l. str_strip (l_text l) = ''March'' \<and> bold_font (l_font_name l))
     bold_march_plain_year_doc \<and>
   map_sum id (\<lambda>r. map o_text (outline r)) (process_lines None bold_march_plain_year_doc) =
     Inr [''March'']"
proof -
  have a1: "list_all (\<lambda>l. str_strip (l_text l) \<notin> set [''March 2003'', ''March'', ''2003''] \<or>
                 \<not> bold_font (l_font_name l)) march_beside_bold_doc" by code_simp
  have a2: "list_ex (\<lambda>l. bold_font (l_font_name l)) march_beside_bold_doc" by code_simp
  have a3: "map_sum id (\<lambda>r. map o_text (outline r)) (process_lines None march_beside_bold_doc) =
     Inr [''Overview'']" by code_simp
  have b1: "list_all (\<lambda>l. str_strip (l_text l) \<notin> set [''March 2003'', ''2003''] \<or>
                 \<not> bold_font (l_font_name l)) bold_march_plain_year_doc" by code_simp
  have b2: "list_ex (\<lambda>l. str_strip (l_text l) = ''March'' \<and> bold_font (l_font_name l))
     bold_march_plain_year_doc" by code_simp
  have b3: "map_sum id (\<lambda>r. map o_text (outline r)) (process_lines None bold_march_plain_year_doc) =
     Inr [''March'']" by code_simp
  obtain r where r: "process_lines None march_beside_bold_doc = Inr r"
    using process_lines_ok [of march_beside_bold_doc None] by blast
  obtain r' where r': "process_lines None bold_march_plain_year_doc = Inr r'"
    using process_lines_ok [of bold_march_plain_year_doc None] by blast
  have whole: "\<forall>l \<in> set march_beside_bold_doc.
      str_strip (l_text l) = ''March 2003'' \<longrightarrow> \<not> bold_font (l_font_name l)"
    using a1 by (auto simp: list_all_iff)
  have parts: "(\<forall>l \<in> set march_beside_bold_doc.
        str_strip (l_text l) = ''March'' \<longrightarrow> \<not> bold_font (l_font_name l)) \<or>
      (\<forall>l \<in> set march_beside_bold_doc.
        str_strip (l_text l) = ''2003'' \<longrightarrow> \<not> bold_font (l_font_name l))"
    using a1 by (auto simp: list_all_iff)
  have whole': "\<forall>l \<in> set bold_march_plain_year_doc.
      str_strip (l_text l) = ''March 2003'' \<longrightarrow> \<not> bold_font (l_font_name l)"
    using b1 by (auto simp: list_all_iff)
  have parts': "(\<forall>l \<in> set bold_march_plain_year_doc.
        str_strip (l_text l) = ''March'' \<longrightarrow> \<not> bold_font (l_font_name l)) \<or>
      (\<forall>l \<in> set bold_march_plain_year_doc.
        str_strip (l_text l) = ''2003'' \<longrightarrow> \<not> bold_font (l_font_name l))"
    using b1 by (auto simp: list_all_iff)
  have first: "line_at ''March 2003'' 24 ''Times-Roman'' 1 700 \<in> set march_beside_bold_doc"
    by (simp add: march_beside_bold_doc_def)
  have st: "str_strip ''March 2003'' = ''March 2003''" by (simp add: str_strip_def isspace_c_def)
  from march_2003_not_in_outline [OF whole parts r] first st
  have c: "\<not> is_actual_heading ''March 2003'' (H 1) (Some 306) (Some 700) (Some 612) (Some 792)
       (Some ''Times-Roman'')"
    by (fastforce simp: line_at_def)
  from march_2003_not_in_outline [OF whole' parts' r']
  have "\<forall>e \<in> set (outline r'). o_text e \<noteq> ''March 2003''" by blast
  then show ?thesis using a1 a2 a3 b1 b2 b3 c by blast
qed

text \<open>
  The claim as it is written holds for every document. In a bold font the line is
  accepted and is in the outline, as one line or merged from the two lines \<^verbatim>\<open>March\<close>
  and \<^verbatim>\<open>2003\<close>.
\<close>

theorem march_2003_bold_counterexample:
  "is_actual_heading ''March 2003'' (H 1) (Some 72) (Some 700) (Some 612) (Some 792)
     (Some ''Times-Bold'') \<and>
   map_sum id (\<lambda>r. map o_text (outline r)) (process_lines None march_bold_doc) =
     Inr [''March 2003''] \<and>
   map_sum id (\<lambda>r. map o_text (outline r)) (process_lines None march_split_doc) =
     Inr [''March 2003'']"
  by code_simp

end
